(* ===== verification/Go_Prelude.thy ===== *)
theory Go_Prelude
  imports Main "HOL-Library.Word" "HOL-Library.AList" "HOL-Library.Sublist"
begin

text \<open>
  The part of Go that the proxy's sources use, and the lemmas every component shares.

  A Go \<open>string\<close> and a Go \<open>[]byte\<close> are both byte sequences; a HOL \<open>char\<close> is exactly one byte,
  so both are \<open>string\<close> here. A Go \<open>int\<close> is 64 bits wide: it is an \<open>int\<close>, with
  \<open>wrap64\<close> written where the code adds values that may leave the range. A Go map is an
  association list with distinct keys (\<open>gomap\<close>); the order of the list is the order in which
  \<open>range\<close> happens to visit the entries. Counters of type \<open>uint64\<close> and \<open>uint32\<close> are words.

  After the model of \<open>strings\<close>, \<open>strconv\<close> and \<open>path/filepath\<close> come the interfaces as locales:
  \<open>find_or_create\<close> and \<open>keyed_registry\<close> (the contract of the registries in the program),
  \<open>inductive_invariant\<close> (reachability and invariants of a step relation) and \<open>simulation\<close>
  (a step relation that implements another one).
\<close>

unbundle bit_operations_syntax

named_theorems go_string_simps \<open>unfolding rules of the string functions\<close>
named_theorems go_map_simps \<open>lookup and update laws of Go maps\<close>

section \<open>Bytes and integers\<close>

type_synonym byte = char

abbreviation (input) CR :: byte where "CR \<equiv> CHR 0x0D"
abbreviation (input) LF :: byte where "LF \<equiv> CHR 0x0A"
abbreviation (input) TAB :: byte where "TAB \<equiv> CHR 0x09"
abbreviation (input) SP :: byte where "SP \<equiv> CHR 0x20"
abbreviation (input) CRLF :: string where "CRLF \<equiv> [CR, LF]"

text \<open>\<open>int(b)\<close> and \<open>byte(n)\<close>: the conversion to a byte keeps the low eight bits.\<close>

definition byte_val :: "byte \<Rightarrow> int" where
  "byte_val c = of_char c"

definition to_byte :: "int \<Rightarrow> byte" where
  "to_byte n = char_of n"

lemma to_byte_byte_val [simp]: "to_byte (byte_val c) = c"
  by (simp add: byte_val_def to_byte_def)

lemma byte_val_to_byte [simp]: "byte_val (to_byte n) = n mod 256"
  by (simp add: byte_val_def to_byte_def)

lemma byte_val_nonneg [simp]: "0 \<le> byte_val c"
proof -
  have "byte_val c = byte_val c mod 256" by (metis to_byte_byte_val byte_val_to_byte)
  then show ?thesis by (metis pos_mod_sign zero_less_numeral)
qed

lemma byte_val_less [simp]: "byte_val c < 256"
proof -
  have "byte_val c = byte_val c mod 256" by (metis to_byte_byte_val byte_val_to_byte)
  then show ?thesis by (metis pos_mod_bound zero_less_numeral)
qed

text \<open>
  Signed 64-bit wrap-around, as Go's \<open>+\<close> and \<open>-\<close> on \<open>int\<close> do it.
\<close>

definition wrap64 :: "int \<Rightarrow> int" where
  "wrap64 n = signed_take_bit 63 n"

abbreviation maxInt64 :: int where "maxInt64 \<equiv> 9223372036854775807"
abbreviation minInt64 :: int where "minInt64 \<equiv> - 9223372036854775808"

lemma wrap64_id: "minInt64 \<le> n \<Longrightarrow> n \<le> maxInt64 \<Longrightarrow> wrap64 n = n"
  unfolding wrap64_def by (rule signed_take_bit_int_eq_self) simp_all

lemma wrap64_bounds: "minInt64 \<le> wrap64 n \<and> wrap64 n \<le> maxInt64"
  using signed_take_bit_int_greater_eq_minus_exp [of 63 n] signed_take_bit_int_less_exp [of 63 n]
  unfolding wrap64_def by simp

text \<open>
  \<open>string(b)\<close> of a byte \<open>b\<close> is the UTF-8 encoding of the code point \<open>b\<close>: one byte below
  128, two bytes from 128 on.
\<close>

definition string_of_byte :: "byte \<Rightarrow> string" where
  "string_of_byte b =
     (if byte_val b < 128 then [b]
      else [to_byte (192 OR drop_bit 6 (byte_val b)), to_byte (128 OR (byte_val b AND 63))])"

definition is_ascii :: "byte \<Rightarrow> bool" where
  "is_ascii c = (byte_val c < 128)"

lemma string_of_byte_ascii [simp]: "is_ascii c \<Longrightarrow> string_of_byte c = [c]"
  by (simp add: string_of_byte_def is_ascii_def)

lemma concat_string_of_byte [simp]:
  "list_all is_ascii s \<Longrightarrow> concat (map string_of_byte s) = s"
  by (induction s) auto

lemma string_of_byte_ne [simp]: "string_of_byte c \<noteq> []"
  by (simp add: string_of_byte_def)

lemma concat_string_of_byte_Nil [simp]: "concat (map string_of_byte s) = [] \<longleftrightarrow> s = []"
  by (cases s) auto

definition is_digit :: "byte \<Rightarrow> bool" where
  "is_digit c = (48 \<le> byte_val c \<and> byte_val c \<le> 57)"

definition is_upper :: "byte \<Rightarrow> bool" where
  "is_upper c = (65 \<le> byte_val c \<and> byte_val c \<le> 90)"

definition is_lower :: "byte \<Rightarrow> bool" where
  "is_lower c = (97 \<le> byte_val c \<and> byte_val c \<le> 122)"

definition lower :: "byte \<Rightarrow> byte" where
  "lower c = (if is_upper c then to_byte (byte_val c + 32) else c)"

definition upper :: "byte \<Rightarrow> byte" where
  "upper c = (if is_lower c then to_byte (byte_val c - 32) else c)"

lemmas byte_class_defs = is_digit_def is_upper_def is_lower_def is_ascii_def lower_def upper_def

lemma lower_idem [simp]: "lower (lower c) = lower c"
  by (simp add: byte_class_defs)

lemma lower_upper [simp]: "lower (upper c) = lower c"
  by (auto simp: byte_class_defs)

lemma is_ascii_lower [simp]: "is_ascii (lower c) = is_ascii c"
  by (auto simp: byte_class_defs)


section \<open>Package strings\<close>

text \<open>\<open>strings.Index\<close> and \<open>bytes.Index\<close>: the first position where the pattern occurs.\<close>

fun find_sub :: "string \<Rightarrow> string \<Rightarrow> nat option" where
  "find_sub p [] = (if p = [] then Some 0 else None)"
| "find_sub p (c # s) = (if prefix p (c # s) then Some 0 else map_option Suc (find_sub p s))"

lemma find_sub_Some_iff:
  "find_sub p s = Some i \<longleftrightarrow>
     i \<le> length s \<and> prefix p (drop i s) \<and> (\<forall>j<i. \<not> prefix p (drop j s))"
proof (induction s arbitrary: i)
  case Nil
  then show ?case by auto
next
  case (Cons c s)
  show ?case
  proof (cases i)
    case 0
    then show ?thesis by auto
  next
    case (Suc k)
    with Cons.IH [of k] show ?thesis by (auto simp: All_less_Suc2)
  qed
qed

lemma find_sub_None_iff: "find_sub p s = None \<longleftrightarrow> (\<forall>i\<le>length s. \<not> prefix p (drop i s))"
  by (metis find_sub_Some_iff less_le_trans less_imp_le option.exhaust option.distinct(1)
      exists_least_iff [of "\<lambda>i. i \<le> length s \<and> prefix p (drop i s)"])

lemma find_sub_bound: "find_sub p s = Some i \<Longrightarrow> i + length p \<le> length s"
  by (auto simp: find_sub_Some_iff dest!: prefix_length_le)

lemma find_sub_append: "find_sub p s = Some i \<Longrightarrow> find_sub p (s @ t) = Some i"
proof -
  assume a: "find_sub p s = Some i"
  then have b: "i + length p \<le> length s" by (rule find_sub_bound)
  have "\<not> prefix p (drop j (s @ t))" if "j < i" for j
  proof
    assume "prefix p (drop j (s @ t))"
    then have "prefix p (drop j s @ drop (j - length s) t)" by simp
    moreover have "length p \<le> length (drop j s)" using b that by simp
    ultimately have "prefix p (drop j s)" by (metis prefixI prefix_length_prefix)
    with a that show False by (simp add: find_sub_Some_iff)
  qed
  with a b show ?thesis
    by (auto simp: find_sub_Some_iff prefix_def)
qed

definition contains :: "string \<Rightarrow> string \<Rightarrow> bool" where
  "contains s p = (find_sub p s \<noteq> None)"

definition trim_prefix :: "string \<Rightarrow> string \<Rightarrow> string" where
  "trim_prefix s p = (if prefix p s then drop (length p) s else s)"

lemma takeWhile_none [simp]: "c \<notin> set s \<Longrightarrow> takeWhile (\<lambda>x. x \<noteq> c) s = s"
  by (induction s) auto

lemma dropWhile_none [simp]: "c \<notin> set s \<Longrightarrow> dropWhile (\<lambda>x. x \<noteq> c) s = []"
  by (induction s) auto

lemma takeWhile_sep [simp]: "c \<notin> set s \<Longrightarrow> takeWhile (\<lambda>x. x \<noteq> c) (s @ c # t) = s"
  by (induction s) auto

lemma dropWhile_sep [simp]: "c \<notin> set s \<Longrightarrow> dropWhile (\<lambda>x. x \<noteq> c) (s @ c # t) = c # t"
  by (induction s) auto

text \<open>\<open>strings.Split\<close> and \<open>strings.SplitN\<close> at a one-byte separator.\<close>

fun split :: "byte \<Rightarrow> string \<Rightarrow> string list" where
  "split c [] = [[]]"
| "split c (x # xs) =
     (if x = c then [] # split c xs
      else (case split c xs of [] \<Rightarrow> [[x]] | w # ws \<Rightarrow> (x # w) # ws))"

fun splitN :: "nat \<Rightarrow> byte \<Rightarrow> string \<Rightarrow> string list" where
  "splitN 0 c s = []"
| "splitN (Suc 0) c s = [s]"
| "splitN (Suc (Suc n)) c s =
     (if c \<in> set s
      then takeWhile (\<lambda>x. x \<noteq> c) s # splitN (Suc n) c (tl (dropWhile (\<lambda>x. x \<noteq> c) s))
      else [s])"

fun join :: "string \<Rightarrow> string list \<Rightarrow> string" where
  "join sep [] = []"
| "join sep [w] = w"
| "join sep (w # v # ws) = w @ sep @ join sep (v # ws)"

lemma split_ne [simp]: "split c s \<noteq> []"
  by (cases s) (auto split: list.splits)

lemma split_free [simp]: "c \<notin> set s \<Longrightarrow> split c s = [s]"
  by (induction s) auto

lemma split_append: "c \<notin> set s \<Longrightarrow> split c (s @ c # t) = s # split c t"
  by (induction s) auto

lemma split_no_sep: "w \<in> set (split c s) \<Longrightarrow> c \<notin> set w"
  by (induction s arbitrary: w) (auto split: list.splits if_splits)

lemma join_split: "join [c] (split c s) = s"
proof (induction s)
  case Nil
  then show ?case by simp
next
  case (Cons x s)
  obtain w ws where "split c s = w # ws" by (meson split_ne neq_Nil_conv)
  with Cons show ?case by (cases ws) auto
qed

lemma split_join:
  "ws \<noteq> [] \<Longrightarrow> \<forall>w\<in>set ws. c \<notin> set w \<Longrightarrow> split c (join [c] ws) = ws"
  by (induction "[c]" ws rule: join.induct) (auto simp: split_append)

lemma splitN_two_free [simp]: "c \<notin> set s \<Longrightarrow> splitN 2 c s = [s]"
  by (simp add: numeral_2_eq_2)

lemma splitN_two_append: "c \<notin> set s \<Longrightarrow> splitN 2 c (s @ c # t) = [s, t]"
  by (simp add: numeral_2_eq_2)

text \<open>\<open>strings.ReplaceAll\<close> for a non-empty pattern: non-overlapping, from the left.\<close>

fun replace_all :: "nat \<Rightarrow> string \<Rightarrow> string \<Rightarrow> string \<Rightarrow> string" where
  "replace_all 0 old new s = s"
| "replace_all (Suc n) old new s =
     (case s of [] \<Rightarrow> []
      | c # t \<Rightarrow> (if prefix old s then new @ replace_all n old new (drop (length old) s)
                  else c # replace_all n old new t))"

definition replaceAll :: "string \<Rightarrow> string \<Rightarrow> string \<Rightarrow> string" where
  "replaceAll s old new = replace_all (length s) old new s"

text \<open>
  \<open>strings.TrimSpace\<close>: the encodings of the Unicode white-space characters are cut at both
  ends.
\<close>

definition space_runes :: "string list" where
  "space_runes =
     [[TAB], [LF], [CHR 0x0B], [CHR 0x0C], [CR], [SP], [CHR 0xC2, CHR 0x85], [CHR 0xC2, CHR 0xA0],
      [CHR 0xE1, CHR 0x9A, CHR 0x80]] @
     map (\<lambda>b. [CHR 0xE2, CHR 0x80, b])
       [CHR 0x80, CHR 0x81, CHR 0x82, CHR 0x83, CHR 0x84, CHR 0x85, CHR 0x86, CHR 0x87, CHR 0x88,
        CHR 0x89, CHR 0x8A, CHR 0xA8, CHR 0xA9, CHR 0xAF] @
     [[CHR 0xE2, CHR 0x81, CHR 0x9F], [CHR 0xE3, CHR 0x80, CHR 0x80]]"

fun trim_left :: "nat \<Rightarrow> string \<Rightarrow> string" where
  "trim_left 0 s = s"
| "trim_left (Suc n) s =
     (case find (\<lambda>r. prefix r s) space_runes of
        None \<Rightarrow> s | Some r \<Rightarrow> trim_left n (drop (length r) s))"

fun trim_right :: "nat \<Rightarrow> string \<Rightarrow> string" where
  "trim_right 0 s = s"
| "trim_right (Suc n) s =
     (case find (\<lambda>r. suffix r s) space_runes of
        None \<Rightarrow> s | Some r \<Rightarrow> trim_right n (take (length s - length r) s))"

definition trimSpace :: "string \<Rightarrow> string" where
  "trimSpace s = (let t = trim_left (length s) s in trim_right (length t) t)"

text \<open>A visible ASCII byte is no part of a white-space character.\<close>

definition visible :: "byte \<Rightarrow> bool" where
  "visible c = (33 \<le> byte_val c \<and> byte_val c \<le> 126)"

lemma space_runes_edges: "\<forall>r\<in>set space_runes. r \<noteq> [] \<and> \<not> visible (hd r) \<and> \<not> visible (last r)"
  by (simp add: space_runes_def visible_def byte_val_def)

lemma trim_left_visible [simp]: "visible c \<Longrightarrow> trim_left n (c # s) = c # s"
proof (cases n)
  case (Suc m)
  assume "visible c"
  then have "find (\<lambda>r. prefix r (c # s)) space_runes = None"
    using space_runes_edges by (auto simp: find_None_iff prefix_Cons)
  with Suc show ?thesis by simp
qed simp

lemma trim_right_visible [simp]: "visible c \<Longrightarrow> trim_right n (s @ [c]) = s @ [c]"
proof (cases n)
  case (Suc m)
  assume "visible c"
  then have "find (\<lambda>r. suffix r (s @ [c])) space_runes = None"
    using space_runes_edges by (auto simp: find_None_iff suffix_def) (metis last_append last_snoc)
  with Suc show ?thesis by simp
qed simp

lemma trimSpace_visible:
  assumes "s \<noteq> []" "visible (hd s)" "visible (last s)"
  shows "trimSpace s = s"
proof -
  from assms have "trim_left (length s) s = s"
    by (metis list.collapse trim_left_visible)
  moreover from assms have "trim_right (length s) s = s"
    by (metis append_butlast_last_id trim_right_visible)
  ultimately show ?thesis by (simp add: trimSpace_def)
qed

lemma trimSpace_Nil [simp]: "trimSpace [] = []"
  by (simp add: trimSpace_def)

lemma trimSpace_all_visible: "list_all visible s \<Longrightarrow> trimSpace s = s"
  by (cases "s = []") (auto simp: list_all_iff intro: trimSpace_visible)

text \<open>
  \<open>strings.ToLower\<close>, as far as a comparison with an ASCII string can see it: the ASCII letters,
  and the two characters outside ASCII whose lower case is in ASCII (the Kelvin sign and the
  dotted capital I).
\<close>

fun toLower :: "string \<Rightarrow> string" where
  "toLower [] = []"
| "toLower [a] = [lower a]"
| "toLower [a, b] =
     (if a = CHR 0xC4 \<and> b = CHR 0xB0 then ''i'' else [lower a, lower b])"
| "toLower (a # b # c # s) =
     (if a = CHR 0xE2 \<and> b = CHR 0x84 \<and> c = CHR 0xAA then CHR ''k'' # toLower s
      else if a = CHR 0xC4 \<and> b = CHR 0xB0 then CHR ''i'' # toLower (c # s)
      else lower a # toLower (b # c # s))"

lemma toLower_ascii: "list_all is_ascii s \<Longrightarrow> toLower s = map lower s"
  by (induction s rule: toLower.induct) (auto simp: is_ascii_def byte_val_def)

text \<open>\<open>strings.EqualFold\<close> with an ASCII string that holds no \<open>k\<close> and no \<open>s\<close>.\<close>

definition equalFold :: "string \<Rightarrow> string \<Rightarrow> bool" where
  "equalFold s t = (map lower s = map lower t)"


section \<open>Package strconv\<close>

datatype num_error = ErrSyntax | ErrRange

abbreviation maxUint64 :: int where "maxUint64 \<equiv> 18446744073709551615"

text \<open>
  The digit loop of \<open>strconv.ParseUint\<close> in base ten: a value and an error, both returned.
  Overflow is reported before the remaining bytes are looked at.
\<close>

fun parseUint :: "int \<Rightarrow> string \<Rightarrow> int \<times> num_error option" where
  "parseUint n [] = (n, None)"
| "parseUint n (c # cs) =
     (if \<not> is_digit c then (0, Some ErrSyntax)
      else if 1844674407370955162 \<le> n then (maxUint64, Some ErrRange)
      else let n1 = n * 10 + (byte_val c - 48)
           in if maxUint64 < n1 then (maxUint64, Some ErrRange) else parseUint n1 cs)"

definition atoi :: "string \<Rightarrow> int \<times> num_error option" where
  "atoi s =
     (let neg = (s \<noteq> [] \<and> hd s = CHR ''-'');
          ds = (if s \<noteq> [] \<and> (hd s = CHR ''-'' \<or> hd s = CHR ''+'') then tl s else s);
          (un, err) = (if ds = [] then (0, Some ErrSyntax) else parseUint 0 ds)
      in if err = Some ErrSyntax then (0, err)
         else if \<not> neg \<and> 2 ^ 63 \<le> un then (2 ^ 63 - 1, Some ErrRange)
         else if neg \<and> 2 ^ 63 < un then (- (2 ^ 63), Some ErrRange)
         else (if neg then - un else un, None))"

text \<open>\<open>n, _ := strconv.Atoi(s)\<close>: the value, with the error dropped.\<close>

definition atoi_val :: "string \<Rightarrow> int" where
  "atoi_val s = fst (atoi s)"

definition digit_char :: "nat \<Rightarrow> byte" where
  "digit_char d = to_byte (48 + int d)"

fun nat_dec :: "nat \<Rightarrow> string" where
  "nat_dec n = (if n < 10 then [digit_char n] else nat_dec (n div 10) @ [digit_char (n mod 10)])"

declare nat_dec.simps [simp del]

definition itoa :: "int \<Rightarrow> string" where
  "itoa z = (if z < 0 then CHR ''-'' # nat_dec (nat (- z)) else nat_dec (nat z))"

lemma digit_char_val [simp]: "d < 10 \<Longrightarrow> byte_val (digit_char d) = 48 + int d"
  by (simp add: digit_char_def)

lemma is_digit_digit_char [simp]: "d < 10 \<Longrightarrow> is_digit (digit_char d)"
  by (simp add: is_digit_def)

lemma nat_dec_digits: "list_all is_digit (nat_dec n)"
proof (induction n rule: nat_dec.induct)
  case (1 n)
  then show ?case by (subst nat_dec.simps) simp
qed

lemma nat_dec_ne [simp]: "nat_dec n \<noteq> []"
  by (subst nat_dec.simps) simp

lemma parseUint_append:
  "parseUint a xs = (n, None) \<Longrightarrow> parseUint a (xs @ ys) = parseUint n ys"
  by (induction a xs rule: parseUint.induct) (auto simp: Let_def split: if_splits)

lemma parseUint_nat_dec: "int m \<le> maxUint64 \<Longrightarrow> parseUint 0 (nat_dec m) = (int m, None)"
proof (induction m rule: nat_dec.induct)
  case (1 m)
  show ?case
  proof (cases "m < 10")
    case True
    then show ?thesis by (subst nat_dec.simps) simp
  next
    case False
    have q: "int (m div 10) = int m div 10" and r: "int (m mod 10) = int m mod 10"
      by (simp_all add: zdiv_int zmod_int)
    have "parseUint 0 (nat_dec (m div 10)) = (int (m div 10), None)"
      using 1 False q by simp
    then have "parseUint 0 (nat_dec m) = parseUint (int (m div 10)) [digit_char (m mod 10)]"
      using False by (subst nat_dec.simps) (simp add: parseUint_append)
    also have "\<dots> = (int m, None)"
      using "1.prems" by (simp add: q r Let_def)
    finally show ?thesis .
  qed
qed

lemma nat_dec_hd: "is_digit (hd (nat_dec n))"
  using nat_dec_digits [of n] by (cases "nat_dec n") auto

lemma nat_dec_hd_sign [simp]: "hd (nat_dec n) \<noteq> CHR ''-''" "hd (nat_dec n) \<noteq> CHR ''+''"
  using nat_dec_hd [of n] by (auto simp: is_digit_def byte_val_def)

theorem atoi_itoa: "minInt64 \<le> z \<Longrightarrow> z \<le> maxInt64 \<Longrightarrow> atoi (itoa z) = (z, None)"
  by (simp add: atoi_def itoa_def parseUint_nat_dec Let_def)

lemma parseUint_nonneg: "0 \<le> a \<Longrightarrow> parseUint a ds = (un, err) \<Longrightarrow> 0 \<le> un"
  by (induction a ds rule: parseUint.induct) (auto simp: Let_def is_digit_def split: if_splits)

lemma atoi_bounds: "minInt64 \<le> fst (atoi s) \<and> fst (atoi s) \<le> maxInt64"
  by (auto simp: atoi_def Let_def dest!: parseUint_nonneg [OF order.refl] split: prod.splits if_splits)

lemma visible_digit: "is_digit c \<Longrightarrow> visible c"
  by (simp add: visible_def is_digit_def)

lemma nat_dec_visible: "list_all visible (nat_dec n)"
  using nat_dec_digits [of n] by (auto simp: list_all_iff visible_digit)

lemma itoa_visible: "list_all visible (itoa z)"
  by (simp add: itoa_def nat_dec_visible) (simp add: visible_def byte_val_def)

text \<open>\<open>\%x\<close> of a byte and \<open>\%08x\<close> of a \<open>uint32\<close>.\<close>

definition hex_char :: "nat \<Rightarrow> byte" where
  "hex_char d = (if d < 10 then to_byte (48 + int d) else to_byte (87 + int d))"

fun nat_hex :: "nat \<Rightarrow> string" where
  "nat_hex n = (if n < 16 then [hex_char n] else nat_hex (n div 16) @ [hex_char (n mod 16)])"

declare nat_hex.simps [simp del]

definition hex08 :: "32 word \<Rightarrow> string" where
  "hex08 w = (let h = nat_hex (unat w) in replicate (8 - length h) (CHR ''0'') @ h)"

definition hex_byte :: "byte \<Rightarrow> string" where
  "hex_byte b = [hex_char (nat (byte_val b) div 16), hex_char (nat (byte_val b) mod 16)]"

section \<open>Package path/filepath\<close>

text \<open>The file part of \<open>filepath.Split\<close>, and \<open>filepath.Base\<close>.\<close>

definition split_file :: "string \<Rightarrow> string" where
  "split_file path = rev (takeWhile (\<lambda>c. c \<noteq> CHR ''/'') (rev path))"

definition base_name :: "string \<Rightarrow> string" where
  "base_name path =
     (if path = [] then ''.''
      else let p = rev (dropWhile (\<lambda>c. c = CHR ''/'') (rev path)); f = split_file p
           in if f = [] then ''/'' else f)"

definition trim_right_slash :: "string \<Rightarrow> string" where
  "trim_right_slash s = rev (dropWhile (\<lambda>c. c = CHR ''/'') (rev s))"

definition trim_left_slash :: "string \<Rightarrow> string" where
  "trim_left_slash s = dropWhile (\<lambda>c. c = CHR ''/'') s"

lemma split_file_append: "CHR ''/'' \<notin> set f \<Longrightarrow> split_file (d @ CHR ''/'' # f) = f"
proof -
  assume "CHR ''/'' \<notin> set f"
  then have "takeWhile (\<lambda>c. c \<noteq> CHR ''/'') (rev f) = rev f"
    by (auto simp: takeWhile_eq_all_conv)
  then show ?thesis
    by (simp add: split_file_def takeWhile_tail del: takeWhile_eq_all_conv)
qed

section \<open>Go maps\<close>

type_synonym ('k, 'v) gomap = "('k \<times> 'v) list"

abbreviation mget :: "('k, 'v) gomap \<Rightarrow> 'k \<Rightarrow> 'v option" where
  "mget m k \<equiv> map_of m k"

abbreviation mput :: "'k \<Rightarrow> 'v \<Rightarrow> ('k, 'v) gomap \<Rightarrow> ('k, 'v) gomap" where
  "mput k v m \<equiv> AList.update k v m"

abbreviation mdel :: "'k \<Rightarrow> ('k, 'v) gomap \<Rightarrow> ('k, 'v) gomap" where
  "mdel k m \<equiv> AList.delete k m"

abbreviation gomap_wf :: "('k, 'v) gomap \<Rightarrow> bool" where
  "gomap_wf m \<equiv> distinct (map fst m)"

text \<open>\<open>m[k]\<close> of a \<open>map[string]string\<close>: the empty string when the key is absent.\<close>

definition mget_str :: "('k, string) gomap \<Rightarrow> 'k \<Rightarrow> string" where
  "mget_str m k = (case mget m k of None \<Rightarrow> [] | Some v \<Rightarrow> v)"

lemma mget_mput [go_map_simps, simp]: "mget (mput k v m) k' = (if k' = k then Some v else mget m k')"
  by (simp add: update_conv')

lemma mget_mdel [go_map_simps, simp]: "mget (mdel k m) k' = (if k' = k then None else mget m k')"
  by (simp add: delete_conv')

lemma gomap_wf_mput [go_map_simps, simp]: "gomap_wf m \<Longrightarrow> gomap_wf (mput k v m)"
  by (rule distinct_update)

lemma gomap_wf_mdel [go_map_simps, simp]: "gomap_wf m \<Longrightarrow> gomap_wf (mdel k m)"
  by (rule distinct_delete)

lemma gomap_mem: "gomap_wf m \<Longrightarrow> (k, v) \<in> set m \<longleftrightarrow> mget m k = Some v"
  by (simp add: eq_commute)

lemma mput_new: "mget m k = None \<Longrightarrow> mput k v m = m @ [(k, v)]"
  by (induction m) (auto split: if_splits)

text \<open>A value stored under an existing key keeps its place; the other entries do not move.\<close>

lemma map_fst_mput_old: "mget m k \<noteq> None \<Longrightarrow> map fst (mput k v m) = map fst m"
  by (induction m) (auto split: if_splits)

section \<open>Interfaces\<close>

subsection \<open>Registries: look an entry up, create it when it is missing\<close>

text \<open>
  The stream manager (\<open>GetStream\<close>), a stream (\<open>LookupSession\<close>) and a session
  (\<open>LookupTransport\<close>) promise their callers the same thing: one entry per key, found again
  by every later call. \<open>goc\<close> is the operation, \<open>look\<close> reads the registry, \<open>ok\<close> is its
  invariant.
\<close>

locale find_or_create =
  fixes look :: "'s \<Rightarrow> 'k \<Rightarrow> 'v option"
    and goc :: "'k \<Rightarrow> 's \<Rightarrow> 'v \<times> 's"
    and ok :: "'s \<Rightarrow> bool"
  assumes goc_found: "ok s \<Longrightarrow> look s k = Some v \<Longrightarrow> goc k s = (v, s)"
    and goc_created: "ok s \<Longrightarrow> look s k = None \<Longrightarrow> look (snd (goc k s)) k = Some (fst (goc k s))"
    and goc_keeps: "ok s \<Longrightarrow> look s k' = Some v \<Longrightarrow> look (snd (goc k s)) k' = Some v"
    and goc_ok: "ok s \<Longrightarrow> ok (snd (goc k s))"
begin

lemma goc_look: "ok s \<Longrightarrow> look (snd (goc k s)) k = Some (fst (goc k s))"
  by (cases "look s k") (auto simp: goc_found goc_created)

lemma goc_again: "ok s \<Longrightarrow> goc k (snd (goc k s)) = goc k s"
  using goc_found [OF goc_ok goc_look] by simp

lemma gocs_ok: "ok s \<Longrightarrow> ok (fold (\<lambda>k s. snd (goc k s)) ks s)"
  by (induction ks arbitrary: s) (auto simp: goc_ok)

lemma gocs_keep: "ok s \<Longrightarrow> look s k = Some v \<Longrightarrow> look (fold (\<lambda>k s. snd (goc k s)) ks s) k = Some v"
  by (induction ks arbitrary: s) (auto simp: goc_keeps goc_ok)

text \<open>The entry of a key stays the same whatever lookups come in between.\<close>

lemma goc_stable:
  "ok s \<Longrightarrow> fst (goc k (fold (\<lambda>k s. snd (goc k s)) ks (snd (goc k s)))) = fst (goc k s)"
  using goc_found [OF gocs_ok [OF goc_ok] gocs_keep [OF goc_ok goc_look]] by simp

end

text \<open>A registry whose keys do not interfere: a call for one key makes no entry for another one.\<close>

locale keyed_registry =
  fixes look :: "'s \<Rightarrow> 'k \<Rightarrow> 'v option"
    and goc :: "'k \<Rightarrow> 's \<Rightarrow> 'v \<times> 's"
    and ok :: "'s \<Rightarrow> bool"
  assumes key_found: "ok s \<Longrightarrow> look s k = Some v \<Longrightarrow> goc k s = (v, s)"
    and key_created: "ok s \<Longrightarrow> look s k = None \<Longrightarrow> look (snd (goc k s)) k = Some (fst (goc k s))"
    and key_others: "ok s \<Longrightarrow> k' \<noteq> k \<Longrightarrow> look (snd (goc k s)) k' = look s k'"
    and key_ok: "ok s \<Longrightarrow> ok (snd (goc k s))"
begin

lemma key_keeps: "ok s \<Longrightarrow> look s k' = Some v \<Longrightarrow> look (snd (goc k s)) k' = Some v"
  by (cases "k' = k") (auto simp: key_found key_others)

text \<open>Only the keys that were asked for have new entries.\<close>

lemma keys_others: "ok s \<Longrightarrow> k \<notin> set ks \<Longrightarrow> look (fold (\<lambda>k s. snd (goc k s)) ks s) k = look s k"
  by (induction ks arbitrary: s) (auto simp: key_others key_ok)

end

sublocale keyed_registry \<subseteq> find_or_create look goc ok
  by unfold_locales (auto simp: key_found key_created key_keeps key_ok)

subsection \<open>Sums over lists\<close>

lemma sum_list_upd: "i < length zs \<Longrightarrow> sum_list (map f (zs[i := z])) + f (zs ! i) = sum_list (map f zs) + (f z :: nat)"
proof (induction zs arbitrary: i)
  case (Cons a zs)
  then show ?case by (cases i) auto
qed simp

lemma sum_list_pos: "0 < sum_list (map f zs) \<Longrightarrow> \<exists>z \<in> set zs. 0 < (f z :: nat)"
  by (metis gr_zeroI list.set_map imageE less_numeral_extra(3) sum_list_eq_0_iff)

subsection \<open>Transition systems and their invariants\<close>

inductive reach :: "('s \<Rightarrow> bool) \<Rightarrow> ('s \<Rightarrow> 's \<Rightarrow> bool) \<Rightarrow> 's \<Rightarrow> bool" for init step where
  reach_init: "init s \<Longrightarrow> reach init step s"
| reach_step: "reach init step s \<Longrightarrow> step s t \<Longrightarrow> reach init step t"

lemma reach_steps: "step\<^sup>*\<^sup>* s t \<Longrightarrow> reach init step s \<Longrightarrow> reach init step t"
  by (induction rule: rtranclp_induct) (auto intro: reach_step)

locale inductive_invariant =
  fixes init :: "'s \<Rightarrow> bool"
    and step :: "'s \<Rightarrow> 's \<Rightarrow> bool"
    and inv :: "'s \<Rightarrow> bool"
  assumes inv_init: "init s \<Longrightarrow> inv s"
    and inv_step: "inv s \<Longrightarrow> step s t \<Longrightarrow> inv t"
begin

lemma reach_inv: "reach init step s \<Longrightarrow> inv s"
  by (induction rule: reach.induct) (auto intro: inv_init inv_step)

lemma inv_steps: "step\<^sup>*\<^sup>* s t \<Longrightarrow> inv s \<Longrightarrow> inv t"
  by (induction rule: rtranclp_induct) (auto intro: inv_step)

end

text \<open>
  A system whose steps are sequences of steps of another one, through an abstraction of its states;
  what is reachable here is reachable there.
\<close>

locale simulation = inductive_invariant init step inv
  for init :: "'s \<Rightarrow> bool" and step :: "'s \<Rightarrow> 's \<Rightarrow> bool" and inv :: "'s \<Rightarrow> bool" +
  fixes abs :: "'s \<Rightarrow> 'a"
    and abs_init :: "'a \<Rightarrow> bool"
    and abs_step :: "'a \<Rightarrow> 'a \<Rightarrow> bool"
  assumes sim_init: "init s \<Longrightarrow> abs_init (abs s)"
    and sim_step: "inv s \<Longrightarrow> step s t \<Longrightarrow> abs_step\<^sup>*\<^sup>* (abs s) (abs t)"
begin

lemma reach_abs: "reach init step s \<Longrightarrow> reach abs_init abs_step (abs s)"
proof (induction rule: reach.induct)
  case (reach_init s)
  then show ?case by (intro reach.reach_init sim_init)
next
  case (reach_step s t)
  from sim_step [OF reach_inv [OF reach_step(1)] reach_step(2)] reach_step(3) show ?case by (rule reach_steps)
qed

lemma steps_abs: "step\<^sup>*\<^sup>* s t \<Longrightarrow> inv s \<Longrightarrow> abs_step\<^sup>*\<^sup>* (abs s) (abs t)"
proof (induction rule: rtranclp_induct)
  case (step t u)
  then show ?case using sim_step [OF inv_steps [OF step(1)] step(2)] by (meson rtranclp_trans)
qed simp

end

end
