(* ===== verification/Go_Hash.thy ===== *)
theory Go_Hash
  imports Go_Prelude
begin

text \<open>
  The parts of the Go standard library that the authentication code computes with:
  \<open>crypto/md5\<close> (RFC 1321, on 32-bit words), \<open>encoding/hex\<close> and \<open>encoding/base64\<close>. The lemmas
  give the length and the alphabet of a printed digest and show that decoding inverts the base64
  encoding.
\<close>

section \<open>MD5\<close>

unbundle bit_operations_syntax

type_synonym word32 = "32 word"

definition rotl :: "nat \<Rightarrow> word32 \<Rightarrow> word32" where
  "rotl n x = push_bit n x OR drop_bit (32 - n) x"

definition md5_K :: "word32 list" where
  "md5_K =
     [0xd76aa478, 0xe8c7b756, 0x242070db, 0xc1bdceee, 0xf57c0faf, 0x4787c62a,
      0xa8304613, 0xfd469501, 0x698098d8, 0x8b44f7af, 0xffff5bb1, 0x895cd7be,
      0x6b901122, 0xfd987193, 0xa679438e, 0x49b40821, 0xf61e2562, 0xc040b340,
      0x265e5a51, 0xe9b6c7aa, 0xd62f105d, 0x02441453, 0xd8a1e681, 0xe7d3fbc8,
      0x21e1cde6, 0xc33707d6, 0xf4d50d87, 0x455a14ed, 0xa9e3e905, 0xfcefa3f8,
      0x676f02d9, 0x8d2a4c8a, 0xfffa3942, 0x8771f681, 0x6d9d6122, 0xfde5380c,
      0xa4beea44, 0x4bdecfa9, 0xf6bb4b60, 0xbebfbc70, 0x289b7ec6, 0xeaa127fa,
      0xd4ef3085, 0x04881d05, 0xd9d4d039, 0xe6db99e5, 0x1fa27cf8, 0xc4ac5665,
      0xf4292244, 0x432aff97, 0xab9423a7, 0xfc93a039, 0x655b59c3, 0x8f0ccc92,
      0xffeff47d, 0x85845dd1, 0x6fa87e4f, 0xfe2ce6e0, 0xa3014314, 0x4e0811a1,
      0xf7537e82, 0xbd3af235, 0x2ad7d2bb, 0xeb86d391]"

definition md5_shift :: "nat \<Rightarrow> nat" where
  "md5_shift i = [[7, 12, 17, 22], [5, 9, 14, 20], [4, 11, 16, 23], [6, 10, 15, 21]] ! (i div 16) ! (i mod 4)"

definition md5_mix :: "nat \<Rightarrow> word32 \<Rightarrow> word32 \<Rightarrow> word32 \<Rightarrow> word32" where
  "md5_mix i b c d =
     (if i < 16 then (b AND c) OR (NOT b AND d)
      else if i < 32 then (d AND b) OR (NOT d AND c)
      else if i < 48 then b XOR c XOR d
      else c XOR (b OR NOT d))"

definition md5_index :: "nat \<Rightarrow> nat" where
  "md5_index i =
     (if i < 16 then i
      else if i < 32 then (5 * i + 1) mod 16
      else if i < 48 then (3 * i + 5) mod 16
      else 7 * i mod 16)"

type_synonym md5_state = "word32 \<times> word32 \<times> word32 \<times> word32"

fun md5_round :: "word32 list \<Rightarrow> nat \<Rightarrow> md5_state \<Rightarrow> md5_state" where
  "md5_round m i (a, b, c, d) =
     (d, b + rotl (md5_shift i) (md5_mix i b c d + a + md5_K ! i + m ! md5_index i), b, c)"

fun md5_add :: "md5_state \<Rightarrow> md5_state \<Rightarrow> md5_state" where
  "md5_add (a, b, c, d) (a', b', c', d') = (a + a', b + b', c + c', d + d')"

definition md5_block :: "word32 list \<Rightarrow> md5_state \<Rightarrow> md5_state" where
  "md5_block m st = md5_add st (fold (md5_round m) [0..<64] st)"

text \<open>Little-endian words and bytes.\<close>

fun le_int :: "string \<Rightarrow> int" where
  "le_int [] = 0"
| "le_int (c # s) = byte_val c + 256 * le_int s"

fun le_bytes :: "nat \<Rightarrow> int \<Rightarrow> string" where
  "le_bytes 0 k = []"
| "le_bytes (Suc n) k = to_byte k # le_bytes n (k div 256)"

definition md5_words :: "string \<Rightarrow> word32 list" where
  "md5_words block = map (\<lambda>i. of_int (le_int (take 4 (drop (4 * i) block)))) [0..<16]"

definition md5_pad :: "string \<Rightarrow> string" where
  "md5_pad s =
     s @ [to_byte 128] @ replicate (nat ((55 - int (length s)) mod 64)) (to_byte 0) @
     le_bytes 8 (8 * int (length s))"

definition md5_blocks :: "string \<Rightarrow> string list" where
  "md5_blocks s = map (\<lambda>i. take 64 (drop (64 * i) s)) [0..<length s div 64]"

definition md5_init :: md5_state where
  "md5_init = (0x67452301, 0xefcdab89, 0x98badcfe, 0x10325476)"

fun md5_out :: "md5_state \<Rightarrow> string" where
  "md5_out (a, b, c, d) = concat (map (\<lambda>w. le_bytes 4 (uint w)) [a, b, c, d])"

definition md5_sum :: "string \<Rightarrow> string" where
  "md5_sum s = md5_out (fold (\<lambda>block. md5_block (md5_words block)) (md5_blocks (md5_pad s)) md5_init)"

definition hex_encode :: "string \<Rightarrow> string" where
  "hex_encode s = concat (map hex_byte s)"

section \<open>Base64\<close>

definition b64_alphabet :: string where
  "b64_alphabet = ''ABCDEFGHIJKLMNOPQRSTUVWXYZabcdefghijklmnopqrstuvwxyz0123456789+/''"

definition b64_char :: "int \<Rightarrow> char" where
  "b64_char k = b64_alphabet ! nat (k mod 64)"

fun b64_encode :: "string \<Rightarrow> string" where
  "b64_encode [] = []"
| "b64_encode [a] =
     (let n = byte_val a * 65536
      in [b64_char (n div 262144), b64_char (n div 4096), CHR ''='', CHR ''=''])"
| "b64_encode [a, b] =
     (let n = byte_val a * 65536 + byte_val b * 256
      in [b64_char (n div 262144), b64_char (n div 4096), b64_char (n div 64), CHR ''=''])"
| "b64_encode (a # b # c # s) =
     (let n = byte_val a * 65536 + byte_val b * 256 + byte_val c
      in b64_char (n div 262144) # b64_char (n div 4096) # b64_char (n div 64) # b64_char n # b64_encode s)"

definition b64_val :: "char \<Rightarrow> int" where
  "b64_val c = int (length (takeWhile (\<lambda>x. x \<noteq> c) b64_alphabet))"

definition b64_bytes :: "int \<Rightarrow> string" where
  "b64_bytes n = [to_byte (n div 65536), to_byte (n div 256), to_byte n]"

fun b64_decode :: "string \<Rightarrow> string" where
  "b64_decode (w # x # y # z # s) =
     (if y = CHR ''='' then take 1 (b64_bytes (b64_val w * 262144 + b64_val x * 4096))
      else if z = CHR ''='' then take 2 (b64_bytes (b64_val w * 262144 + b64_val x * 4096 + b64_val y * 64))
      else b64_bytes (b64_val w * 262144 + b64_val x * 4096 + b64_val y * 64 + b64_val z) @ b64_decode s)"
| "b64_decode _ = []"

section \<open>Lemmas\<close>

lemma b64_alphabet_distinct: "distinct b64_alphabet"
  by code_simp

lemma b64_alphabet_length: "length b64_alphabet = 64"
  by code_simp

lemma takeWhile_distinct_nth:
  "distinct xs \<Longrightarrow> i < length xs \<Longrightarrow> length (takeWhile (\<lambda>x. x \<noteq> xs ! i) xs) = i"
  by (induction xs arbitrary: i) (auto simp: nth_Cons split: nat.splits)

lemma b64_val_char [simp]: "b64_val (b64_char k) = k mod 64"
  using takeWhile_distinct_nth [OF b64_alphabet_distinct, of "nat (k mod 64)"]
  by (simp add: b64_val_def b64_char_def b64_alphabet_length nat_less_iff)

lemma b64_char_not_pad [simp]: "b64_char k \<noteq> CHR ''=''"
proof -
  have "b64_char k \<in> set b64_alphabet"
    by (simp add: b64_char_def b64_alphabet_length nat_less_iff)
  moreover have "CHR ''='' \<notin> set b64_alphabet" by code_simp
  ultimately show ?thesis by metis
qed

lemma b64_digits:
  fixes n :: int
  assumes "0 \<le> n" "n < 16777216"
  shows "n div 262144 mod 64 * 262144 + n div 4096 mod 64 * 4096 + n div 64 mod 64 * 64 + n mod 64 = n"
proof -
  have "n div 64 div 64 = n div 4096" "n div 4096 div 64 = n div 262144"
    by (simp_all flip: div_mult2_eq [of _ _ 64, simplified])
  moreover have "n div 262144 mod 64 = n div 262144" using assms by simp
  ultimately show ?thesis
    using div_mult_mod_eq [of n 64] div_mult_mod_eq [of "n div 64" 64] div_mult_mod_eq [of "n div 4096" 64]
    by linarith
qed

lemma to_byte_mod: "to_byte (k mod 256) = to_byte k"
  by (metis byte_val_to_byte to_byte_byte_val)

lemma b64_bytes_join:
  "b64_bytes (byte_val a * 65536 + byte_val b * 256 + byte_val c) = [a, b, c]"
proof -
  let ?n = "byte_val a * 65536 + byte_val b * 256 + byte_val c"
  have range: "0 \<le> byte_val x" "byte_val x < 256" for x by simp_all
  have "?n div 65536 = byte_val a" using range [of b] range [of c] by linarith
  moreover have "?n div 256 = byte_val b + byte_val a * 256" using range [of c] by linarith
  then have "?n div 256 mod 256 = byte_val b" using range [of b] by simp
  moreover have "?n = byte_val c + (byte_val a * 256 + byte_val b) * 256" by simp
  then have "?n mod 256 = byte_val c" using range [of c] by (metis mod_mult_self1 mod_pos_pos_trivial)
  ultimately show ?thesis
    using to_byte_mod [of "?n div 256"] to_byte_mod [of ?n] by (simp add: b64_bytes_def)
qed

lemma b64_group:
  fixes n :: int
  assumes "n = byte_val a * 65536 + byte_val b * 256 + byte_val c"
  shows "b64_bytes (n div 262144 mod 64 * 262144 + n div 4096 mod 64 * 4096 + n div 64 mod 64 * 64 + n mod 64) =
    [a, b, c]"
proof -
  have range: "0 \<le> byte_val x" "byte_val x < 256" for x by simp_all
  have "0 \<le> n" "n < 16777216"
    using assms range [of a] range [of b] range [of c] by linarith+
  then show ?thesis by (simp only: b64_digits) (simp only: assms b64_bytes_join)
qed

theorem b64_roundtrip: "b64_decode (b64_encode s) = s"
proof (induction s rule: b64_encode.induct)
  case (2 a)
  have "byte_val (to_byte 0) = 0" by simp
  then show ?case
    using b64_group [of "byte_val a * 65536" a "to_byte 0" "to_byte 0"] by simp
next
  case (3 a b)
  have "byte_val (to_byte 0) = 0" by simp
  then show ?case
    using b64_group [of "byte_val a * 65536 + byte_val b * 256" a b "to_byte 0"] by (simp add: Let_def)
next
  case (4 a b c s)
  then show ?case
    using b64_group [of "byte_val a * 65536 + byte_val b * 256 + byte_val c" a b c] by (simp add: Let_def)
qed simp

lemma le_bytes_length [simp]: "length (le_bytes n k) = n"
  by (induction n arbitrary: k) auto

lemma md5_out_length [simp]: "length (md5_out st) = 16"
  by (cases st) simp

lemma md5_sum_length [simp]: "length (md5_sum s) = 16"
  by (simp add: md5_sum_def)

definition is_hex :: "byte \<Rightarrow> bool" where
  "is_hex c = (is_digit c \<or> (97 \<le> byte_val c \<and> byte_val c \<le> 102))"

lemma hex_char_is_hex: "d < 16 \<Longrightarrow> is_hex (hex_char d)"
  by (simp add: hex_char_def is_hex_def is_digit_def)

lemma hex_encode_hex: "list_all is_hex (hex_encode s) \<and> length (hex_encode s) = 2 * length s"
proof -
  have "nat (byte_val c) div 16 < 16" "nat (byte_val c) mod 16 < 16" for c
    using byte_val_less [of c] byte_val_nonneg [of c] by (simp_all add: less_mult_imp_div_less nat_less_iff)
  then show ?thesis
    by (induction s) (simp_all add: hex_encode_def hex_byte_def hex_char_is_hex)
qed

lemma is_hex_visible: "is_hex c \<Longrightarrow> visible c \<and> c \<noteq> CHR 0x22"
  by (auto simp: is_hex_def visible_def is_digit_def byte_val_def)

end
