(* ===== verification/Digest_Auth.thy ===== *)
theory Digest_Auth
  imports Go_Hash
begin

text \<open>
  HTTP Digest and Basic authentication: \<open>digest.go\<close>. Random bytes are an argument. The regular
  expressions are matchers on the rest of the string, tried from left to right; \<open>(?i)\<close> also
  lets the letter \<open>s\<close> match the long s (U+017F), as Go does. The lemmas show that a challenge is
  read back field by field, and that the nonce counts of one nonce never repeat.
\<close>

section \<open>Definitions\<close>

record digest =
  dg_Realm :: string
  dg_Nonce :: string
  dg_Username :: string
  dg_Password :: string
  dg_Qop :: string
  dg_Opaque :: string
  dg_Algorithm :: string
  dg_Nc :: word32

definition NewDigest :: digest where
  "NewDigest =
     \<lparr> dg_Realm = [], dg_Nonce = [], dg_Username = [], dg_Password = [], dg_Qop = [], dg_Opaque = [],
       dg_Algorithm = [], dg_Nc = 0 \<rparr>"

definition md5Hex :: "string \<Rightarrow> string" where
  "md5Hex data = hex_encode (md5_sum data)"

definition randomCnonce :: "string \<Rightarrow> string" where
  "randomCnonce buf = hex_encode buf"

text \<open>The fallback nonce, from eight random bytes and the process-wide counter.\<close>

definition RandomNonce :: "string \<Rightarrow> 64 word \<Rightarrow> digest \<Rightarrow> digest \<times> 64 word" where
  "RandomNonce buf nonceCounter d =
     (let n = nonceCounter + 1;
          seed = hex_encode buf @ nat_dec (unat n)
      in (d\<lparr>dg_Nonce := md5Hex seed\<rparr>, n))"

definition NcString :: "word32 \<Rightarrow> string" where
  "NcString nc = hex08 nc"

text \<open>The response, the nonce count, the client nonce, and the updated digest.\<close>

definition ComputeResponse ::
  "string \<Rightarrow> digest \<Rightarrow> string \<Rightarrow> string \<Rightarrow> (string \<times> string \<times> string) \<times> digest" where
  "ComputeResponse rnd d cmd uri =
     (let ha1 = md5Hex (dg_Username d @ '':'' @ dg_Realm d @ '':'' @ dg_Password d);
          ha2 = md5Hex (cmd @ '':'' @ uri)
      in if equalFold (dg_Qop d) ''auth'' then
           (let d = d\<lparr>dg_Nc := dg_Nc d + 1\<rparr>;
                ncStr = hex08 (dg_Nc d);
                cnonce = randomCnonce rnd
            in ((md5Hex (ha1 @ '':'' @ dg_Nonce d @ '':'' @ ncStr @ '':'' @ cnonce @ '':'' @ ''auth'' @ '':'' @ ha2),
                 ncStr, cnonce), d))
         else ((md5Hex (ha1 @ '':'' @ dg_Nonce d @ '':'' @ ha2), [], []), d))"

subsection \<open>Challenges\<close>

definition re_space :: "byte \<Rightarrow> bool" where
  "re_space c = (c = TAB \<or> c = LF \<or> c = CHR 0x0C \<or> c = CR \<or> c = SP)"

text \<open>A literal under \<open>(?i)\<close>: what is left after it.\<close>

fun ciMatch :: "string \<Rightarrow> string \<Rightarrow> string option" where
  "ciMatch [] s = Some s"
| "ciMatch (p # ps) [] = None"
| "ciMatch (p # ps) (c # s) =
     (if lower c = lower p then ciMatch ps s
      else if lower p = CHR ''s'' \<and> c = CHR 0xC5 \<and> s \<noteq> [] \<and> hd s = CHR 0xBF then ciMatch ps (tl s)
      else None)"

fun findMatch :: "(string \<Rightarrow> 'a option) \<Rightarrow> string \<Rightarrow> 'a option" where
  "findMatch f [] = f []"
| "findMatch f (c # s) = (case f (c # s) of None \<Rightarrow> findMatch f s | Some v \<Rightarrow> Some v)"

definition closeQuote :: "string \<Rightarrow> string option" where
  "closeQuote r = (let v = takeWhile (\<lambda>c. c \<noteq> CHR 0x22) r in if v = r then None else Some v)"

definition matchQuoted :: "string \<Rightarrow> string \<Rightarrow> string option" where
  "matchQuoted name s = Option.bind (ciMatch (name @ [CHR ''='', CHR 0x22]) s) closeQuote"

definition bareValue :: "string \<Rightarrow> string option" where
  "bareValue r = (let v = takeWhile (\<lambda>c. c \<noteq> CHR '','' \<and> \<not> re_space c) r in if v = [] then None else Some v)"

definition matchUnquoted :: "string \<Rightarrow> string \<Rightarrow> string option" where
  "matchUnquoted name s = Option.bind (ciMatch (name @ ''='') s) bareValue"

definition extractParam :: "string \<Rightarrow> string \<Rightarrow> string" where
  "extractParam name s =
     (case findMatch (matchQuoted name) s of
        Some v \<Rightarrow> v
      | None \<Rightarrow> (case findMatch (matchUnquoted name) s of Some v \<Rightarrow> v | None \<Rightarrow> []))"

definition digestRe :: "string \<Rightarrow> unit option" where
  "digestRe s = Option.bind (ciMatch ''Digest'' s) (\<lambda>r. if r \<noteq> [] \<and> re_space (hd r) then Some () else None)"

definition basicRe :: "string \<Rightarrow> string option" where
  "basicRe s =
     Option.bind (ciMatch ''Basic'' s) (\<lambda>r.
       if r \<noteq> [] \<and> re_space (hd r) then
         Option.bind (ciMatch (''realm='' @ [CHR 0x22]) (dropWhile re_space r)) (\<lambda>q.
           Option.bind (closeQuote q) (\<lambda>v. if v = [] then None else Some v))
       else None)"

record challenge =
  ch_realm :: string
  ch_nonce :: string
  ch_qop :: string
  ch_opaque :: string
  ch_algorithm :: string
  ch_isDigest :: bool

definition no_challenge :: challenge where
  "no_challenge = \<lparr> ch_realm = [], ch_nonce = [], ch_qop = [], ch_opaque = [], ch_algorithm = [], ch_isDigest = False \<rparr>"

definition chooseQop :: "string \<Rightarrow> string" where
  "chooseQop qop =
     (if CHR '','' \<in> set qop \<and> ''auth'' \<in> set (map trimSpace (split CHR '','' qop)) then ''auth'' else qop)"

definition ParseWWWAuthenticate :: "string \<Rightarrow> challenge" where
  "ParseWWWAuthenticate s =
     (if s = [] then no_challenge
      else if findMatch digestRe s = None then
        (case findMatch basicRe s of
           Some realm \<Rightarrow> no_challenge\<lparr>ch_realm := realm\<rparr>
         | None \<Rightarrow> no_challenge)
      else
        (let algorithm = extractParam ''algorithm'' s
         in \<lparr> ch_realm = extractParam ''realm'' s, ch_nonce = extractParam ''nonce'' s,
              ch_qop = chooseQop (extractParam ''qop'' s), ch_opaque = extractParam ''opaque'' s,
              ch_algorithm = (if algorithm = [] then ''MD5'' else algorithm), ch_isDigest = True \<rparr>))"

subsection \<open>Authorization headers\<close>

record authorization_header =
  ah_URI :: string
  ah_Realm :: string
  ah_Nonce :: string
  ah_Username :: string
  ah_Response :: string

text \<open>
  The field loop, for any behaviour of the two scans of a field: how many items the first and the second
  scan have set, and the two variables afterwards.
\<close>

type_synonym scan = "string \<Rightarrow> nat \<times> nat \<times> string \<times> string"

definition setField :: "string \<Rightarrow> string \<Rightarrow> authorization_header \<Rightarrow> authorization_header" where
  "setField parameter val h =
     (if parameter = ''username'' then h\<lparr>ah_Username := val\<rparr>
      else if parameter = ''realm'' then h\<lparr>ah_Realm := val\<rparr>
      else if parameter = ''nonce'' then h\<lparr>ah_Nonce := val\<rparr>
      else if parameter = ''uri'' then h\<lparr>ah_URI := val\<rparr>
      else if parameter = ''response'' then h\<lparr>ah_Response := val\<rparr>
      else h)"

function authFields :: "scan \<Rightarrow> string \<Rightarrow> authorization_header \<Rightarrow> authorization_header" where
  "authFields scan flds h =
     (if flds = [] then h
      else case scan flds of (n1, n2, parameter, val) \<Rightarrow>
        if n1 \<noteq> 2 \<and> n2 \<noteq> 1 then h
        else
          (let h = setField (toLower parameter) val h;
               advance = length parameter + 2 + length val + 1
           in if length flds < advance then h
              else
                (let flds = dropWhile (\<lambda>c. c = CHR '' '' \<or> c = CHR '','') (drop advance flds)
                 in if flds = [] \<or> hd flds = CR \<or> hd flds = LF then h else authFields scan flds h)))"
  by pat_completeness auto

termination
  by (relation "measure (\<lambda>(scan, flds, h). length flds)") (auto intro!: le_less_trans [OF length_dropWhile_le])

declare authFields.simps [simp del]

text \<open>
  Both scans use the verb \<open>%[\<close>. Package \<open>fmt\<close> has no such verb: it stops at it with an error and zero
  items scanned, whatever the input.
\<close>

definition sscanf :: scan where
  "sscanf flds = (0, 0, [], [])"

definition no_fields :: authorization_header where
  "no_fields = \<lparr> ah_URI = [], ah_Realm = [], ah_Nonce = [], ah_Username = [], ah_Response = [] \<rparr>"

definition ParseAuthorizationHeader :: "scan \<Rightarrow> string \<Rightarrow> authorization_header option" where
  "ParseAuthorizationHeader scan buf =
     (if buf = [] then None
      else (case find_sub ''Authorization: Digest '' buf of
              None \<Rightarrow> None
            | Some index \<Rightarrow> Some (authFields scan (drop (index + 22) buf) no_fields)))"

section \<open>Reading a challenge\<close>

text \<open>A text inside which the parameter name is never followed by an equals sign.\<close>

definition quietFor :: "string \<Rightarrow> string \<Rightarrow> bool" where
  "quietFor name v = list_all (\<lambda>t. ciMatch (name @ ''='') t = None) (suffixes v)"

definition param_names :: "string list" where
  "param_names = [''realm'', ''nonce'', ''qop'', ''opaque'', ''algorithm'']"

definition quiet :: "string \<Rightarrow> bool" where
  "quiet v = (CHR 0x22 \<notin> set v \<and> list_all (\<lambda>name. quietFor name v) param_names)"

text \<open>The challenge as a camera sends it: labels, each followed by a quoted value.\<close>

definition field :: "string \<times> string \<Rightarrow> string" where
  "field f = fst f @ [CHR 0x22] @ snd f @ [CHR 0x22]"

definition challengeText :: "challenge \<Rightarrow> string" where
  "challengeText c =
     concat (map field [(''Digest realm='', ch_realm c), ('', nonce='', ch_nonce c), ('', qop='', ch_qop c),
       ('', opaque='', ch_opaque c), ('', algorithm='', ch_algorithm c)])"

definition challenge_ok :: "challenge \<Rightarrow> bool" where
  "challenge_ok c =
     (list_all quiet [ch_realm c, ch_nonce c, ch_qop c, ch_opaque c, ch_algorithm c] \<and>
      CHR '','' \<notin> set (ch_qop c) \<and> ch_algorithm c \<noteq> [] \<and> ch_isDigest c)"

lemma lower_quote: "lower c = CHR 0x22 \<longleftrightarrow> c = CHR 0x22"
proof -
  have "to_byte (byte_val c + 32) \<noteq> CHR 0x22" if "is_upper c"
  proof
    assume "to_byte (byte_val c + 32) = CHR 0x22"
    then have "byte_val (to_byte (byte_val c + 32)) = byte_val (CHR 0x22)" by (rule arg_cong)
    with that show False by (simp add: is_upper_def) (simp add: byte_val_def)
  qed
  moreover have "\<not> is_upper (CHR 0x22)" by code_simp
  ultimately show ?thesis by (auto simp: lower_def)
qed

lemma ciMatch_append: "ciMatch (p @ q) s = Option.bind (ciMatch p s) (ciMatch q)"
  by (induction p s rule: ciMatch.induct) auto

lemma ciMatch_self: "ciMatch p (p @ s) = Some s"
  by (induction p) auto

lemma ciMatch_stop:
  assumes "ciMatch p t = None" "CHR 0x22 \<notin> set p"
  shows "ciMatch p (t @ CHR 0x22 # w) = None"
  using assms
proof (induction p t rule: ciMatch.induct)
  case (2 p ps)
  have "lower (CHR 0x22) = CHR 0x22" by (simp add: lower_quote)
  with 2 have "lower (CHR 0x22) \<noteq> lower p" using lower_quote [of p] by auto
  then show ?case by simp
next
  case (3 p ps c s)
  then show ?case by (cases s) auto
qed simp

lemma findMatch_skip:
  assumes "\<And>t. suffix t v \<Longrightarrow> f (t @ CHR 0x22 # w) = None"
  shows "findMatch f (v @ CHR 0x22 # w) = findMatch f w"
  using assms
proof (induction v)
  case Nil
  then show ?case using Nil [of "[]"] by simp
next
  case (Cons c v)
  then have "findMatch f (v @ CHR 0x22 # w) = findMatch f w" by (simp add: suffix_Cons)
  then show ?case using Cons.prems [of "c # v"] by simp
qed

lemma quiet_skip:
  assumes "quietFor name v" "CHR 0x22 \<notin> set name"
  shows "findMatch (matchQuoted name) (v @ CHR 0x22 # w) = findMatch (matchQuoted name) w"
proof (rule findMatch_skip)
  fix t
  assume "suffix t v"
  then have "ciMatch (name @ ''='') t = None"
    using assms by (auto simp: quietFor_def list_all_iff)
  moreover have "CHR 0x22 \<notin> set (name @ ''='')" using assms(2) by auto
  ultimately have "ciMatch (name @ ''='') (t @ CHR 0x22 # w) = None" by (rule ciMatch_stop)
  then show "matchQuoted name (t @ CHR 0x22 # w) = None"
    using ciMatch_append [of "name @ ''=''" "[CHR 0x22]" "t @ CHR 0x22 # w"] by (simp add: matchQuoted_def)
qed

lemma skip_fields:
  assumes "list_all (\<lambda>f. quietFor name (fst f) \<and> quietFor name (snd f)) fs" "CHR 0x22 \<notin> set name"
  shows "findMatch (matchQuoted name) (concat (map field fs) @ w) = findMatch (matchQuoted name) w"
  using assms(1) by (induction fs) (simp_all add: field_def quiet_skip [OF _ assms(2)])

lemma closeQuote_quoted: "CHR 0x22 \<notin> set v \<Longrightarrow> closeQuote (v @ CHR 0x22 # w) = Some v"
  by (simp add: closeQuote_def Let_def)

text \<open>A field is found when nothing before its name starts like it.\<close>

lemma find_field:
  assumes "list_all (\<lambda>c. lower c \<noteq> lower (hd name)) pre" "lower (hd name) \<noteq> CHR ''s''" "name \<noteq> []"
    "CHR 0x22 \<notin> set v"
  shows "findMatch (matchQuoted name) (field (pre @ name @ ''='', v) @ w) = Some v"
  using assms(1)
proof (induction pre)
  case Nil
  have "ciMatch (name @ [CHR ''='', CHR 0x22]) ((name @ [CHR ''='', CHR 0x22]) @ v @ CHR 0x22 # w) =
      Some (v @ CHR 0x22 # w)"
    by (rule ciMatch_self)
  then have "matchQuoted name (field (name @ ''='', v) @ w) = Some v"
    by (simp add: matchQuoted_def field_def closeQuote_quoted assms(4))
  then show ?case
    by (cases "field (name @ ''='', v) @ w") (auto simp: field_def)
next
  case (Cons c pre)
  obtain a as where name: "name = a # as" using assms(3) by (cases name) auto
  have "matchQuoted name (c # field (pre @ name @ ''='', v) @ w) = None"
    using Cons.prems assms(2) by (simp add: name matchQuoted_def)
  with Cons show ?case by (simp add: field_def)
qed

lemma extract_field:
  assumes "list_all (\<lambda>f. quietFor name (fst f) \<and> quietFor name (snd f)) fs" "CHR 0x22 \<notin> set name"
    "list_all (\<lambda>c. lower c \<noteq> lower (hd name)) pre" "lower (hd name) \<noteq> CHR ''s''" "name \<noteq> []"
    "CHR 0x22 \<notin> set v"
  shows "extractParam name (concat (map field fs) @ field (pre @ name @ ''='', v) @ w) = v"
  using skip_fields [OF assms(1,2), of "field (pre @ name @ ''='', v) @ w"] find_field [OF assms(3-6), of w]
  by (simp add: extractParam_def)

lemma quietFor_labels:
  "quietFor ''nonce'' ''Digest realm=''" "quietFor ''qop'' ''Digest realm=''" "quietFor ''opaque'' ''Digest realm=''"
  "quietFor ''algorithm'' ''Digest realm=''" "quietFor ''qop'' '', nonce=''" "quietFor ''opaque'' '', nonce=''"
  "quietFor ''algorithm'' '', nonce=''" "quietFor ''opaque'' '', qop=''" "quietFor ''algorithm'' '', qop=''"
  "quietFor ''algorithm'' '', opaque=''"
  by code_simp+

lemma quiet_values:
  "quiet v \<Longrightarrow> quietFor ''nonce'' v" "quiet v \<Longrightarrow> quietFor ''qop'' v" "quiet v \<Longrightarrow> quietFor ''opaque'' v"
  "quiet v \<Longrightarrow> quietFor ''algorithm'' v" "quiet v \<Longrightarrow> CHR 0x22 \<notin> set v"
  by (simp_all add: quiet_def param_names_def)

lemma label_starts:
  "list_all (\<lambda>c. lower c \<noteq> lower (hd ''realm'')) ''Digest ''" "list_all (\<lambda>c. lower c \<noteq> lower (hd ''nonce'')) '', ''"
  "list_all (\<lambda>c. lower c \<noteq> lower (hd ''qop'')) '', ''" "list_all (\<lambda>c. lower c \<noteq> lower (hd ''opaque'')) '', ''"
  "list_all (\<lambda>c. lower c \<noteq> lower (hd ''algorithm'')) '', ''"
  "lower (hd ''realm'') \<noteq> CHR ''s''" "lower (hd ''nonce'') \<noteq> CHR ''s''" "lower (hd ''qop'') \<noteq> CHR ''s''"
  "lower (hd ''opaque'') \<noteq> CHR ''s''" "lower (hd ''algorithm'') \<noteq> CHR ''s''"
  by code_simp+

lemma challenge_fields:
  assumes "challenge_ok c"
  shows "extractParam ''realm'' (challengeText c) = ch_realm c"
    "extractParam ''nonce'' (challengeText c) = ch_nonce c"
    "extractParam ''qop'' (challengeText c) = ch_qop c"
    "extractParam ''opaque'' (challengeText c) = ch_opaque c"
    "extractParam ''algorithm'' (challengeText c) = ch_algorithm c"
proof -
  have q: "quiet (ch_realm c)" "quiet (ch_nonce c)" "quiet (ch_qop c)" "quiet (ch_opaque c)" "quiet (ch_algorithm c)"
    using assms by (simp_all add: challenge_ok_def)
  note facts = q [THEN quiet_values(1)] q [THEN quiet_values(2)] q [THEN quiet_values(3)]
    q [THEN quiet_values(4)] q [THEN quiet_values(5)] quietFor_labels label_starts
  show "extractParam ''realm'' (challengeText c) = ch_realm c"
    using extract_field [of "''realm''" "[]" "''Digest ''" "ch_realm c"] facts
    by (simp add: challengeText_def)
  show "extractParam ''nonce'' (challengeText c) = ch_nonce c"
    using extract_field [of "''nonce''" "[(''Digest realm='', ch_realm c)]" "'', ''" "ch_nonce c"] facts
    by (simp add: challengeText_def)
  show "extractParam ''qop'' (challengeText c) = ch_qop c"
    using extract_field [of "''qop''" "[(''Digest realm='', ch_realm c), ('', nonce='', ch_nonce c)]" "'', ''" "ch_qop c"] facts
    by (simp add: challengeText_def)
  show "extractParam ''opaque'' (challengeText c) = ch_opaque c"
    using extract_field [of "''opaque''" "[(''Digest realm='', ch_realm c), ('', nonce='', ch_nonce c),
      ('', qop='', ch_qop c)]" "'', ''" "ch_opaque c"] facts
    by (simp add: challengeText_def)
  show "extractParam ''algorithm'' (challengeText c) = ch_algorithm c"
    using extract_field [of "''algorithm''" "[(''Digest realm='', ch_realm c), ('', nonce='', ch_nonce c),
      ('', qop='', ch_qop c), ('', opaque='', ch_opaque c)]" "'', ''" "ch_algorithm c" "[]"] facts
    by (simp add: challengeText_def)
qed

lemma challenge_digest: "challenge_ok c \<Longrightarrow> findMatch digestRe (challengeText c) = Some ()"
  by (simp add: challengeText_def field_def digestRe_def re_space_def)

section \<open>Nonce counts\<close>

definition hex_digit :: "byte \<Rightarrow> nat" where
  "hex_digit c = nat (if is_digit c then byte_val c - 48 else byte_val c - 87)"

definition hex_value :: "string \<Rightarrow> nat" where
  "hex_value s = foldl (\<lambda>n c. 16 * n + hex_digit c) 0 s"

lemma hex_digit_char: "d < 16 \<Longrightarrow> hex_digit (hex_char d) = d"
  by (simp add: hex_digit_def hex_char_def is_digit_def)

lemma hex_value_nat_hex: "hex_value (nat_hex n) = n"
proof (induction n rule: less_induct)
  case (less n)
  show ?case
  proof (cases "n < 16")
    case True
    then show ?thesis by (simp add: nat_hex.simps [of n] hex_value_def hex_digit_char)
  next
    case False
    with less [of "n div 16"] show ?thesis
      by (simp add: nat_hex.simps [of n] hex_value_def hex_digit_char)
  qed
qed

lemma hex_value_zeros: "hex_value (replicate k (CHR ''0'') @ s) = hex_value s"
proof -
  have "hex_digit (CHR ''0'') = 0" by (simp add: hex_digit_def is_digit_def byte_val_def)
  then have "foldl (\<lambda>n c. 16 * n + hex_digit c) 0 (replicate k (CHR ''0'')) = 0" by (induction k) auto
  then show ?thesis by (simp add: hex_value_def)
qed

lemma NcString_value: "hex_value (NcString w) = unat w"
  by (simp add: NcString_def hex08_def Let_def hex_value_zeros hex_value_nat_hex)

lemma NcString_inj: "NcString v = NcString w \<longleftrightarrow> v = w"
  by (metis NcString_value unsigned_word_eqI)

text \<open>
  A sequence of authenticated requests under one challenge: the random bytes, the method and the
  URI of each.
\<close>

fun responses :: "(string \<times> string \<times> string) list \<Rightarrow> digest \<Rightarrow> (string \<times> string \<times> string) list" where
  "responses [] d = []"
| "responses ((rnd, cmd, uri) # reqs) d =
     (case ComputeResponse rnd d cmd uri of (r, d') \<Rightarrow> r # responses reqs d')"

text \<open>The request digest of RFC 2617, section 3.2.2.1, for \<open>qop=auth\<close>.\<close>

definition request_digest :: "digest \<Rightarrow> string \<Rightarrow> string \<Rightarrow> string \<Rightarrow> string \<Rightarrow> string" where
  "request_digest d nc cnonce cmd uri =
     (let secret = md5Hex (join '':'' [dg_Username d, dg_Realm d, dg_Password d]);
          data = join '':'' [dg_Nonce d, nc, cnonce, ''auth'', md5Hex (join '':'' [cmd, uri])]
      in md5Hex (join '':'' [secret, data]))"

lemma ComputeResponse_auth:
  "equalFold (dg_Qop d) ''auth'' \<Longrightarrow>
     ComputeResponse rnd d cmd uri =
       ((request_digest d (NcString (dg_Nc d + 1)) (hex_encode rnd) cmd uri, NcString (dg_Nc d + 1), hex_encode rnd),
        d\<lparr>dg_Nc := dg_Nc d + 1\<rparr>)"
  by (simp add: ComputeResponse_def request_digest_def NcString_def randomCnonce_def Let_def)

lemma request_digest_Nc: "request_digest (d\<lparr>dg_Nc := n\<rparr>) = request_digest d"
  by (intro ext) (simp add: request_digest_def)

lemma responses_nth:
  assumes "equalFold (dg_Qop d) ''auth''" "i < length reqs" "reqs ! i = (rnd, cmd, uri)"
  shows "responses reqs d ! i =
    (request_digest d (NcString (dg_Nc d + of_nat i + 1)) (hex_encode rnd) cmd uri,
     NcString (dg_Nc d + of_nat i + 1), hex_encode rnd)"
  using assms
proof (induction reqs arbitrary: d i)
  case (Cons req reqs)
  obtain r c u where req: "req = (r, c, u)" by (cases req)
  show ?case
  proof (cases i)
    case 0
    with Cons.prems req show ?thesis by (simp add: ComputeResponse_auth)
  next
    case (Suc k)
    have "dg_Nc d + 1 + of_nat k + 1 = dg_Nc d + of_nat i + 1" by (simp add: Suc)
    with Suc Cons.prems Cons.IH [of "d\<lparr>dg_Nc := dg_Nc d + 1\<rparr>" k] req show ?thesis
      by (simp add: ComputeResponse_auth request_digest_Nc)
  qed
qed simp

lemma responses_length [simp]: "length (responses reqs d) = length reqs"
  by (induction reqs d rule: responses.induct) (simp_all split: prod.split)

lemma of_nat_word32_inj: "i < 4294967296 \<Longrightarrow> j < 4294967296 \<Longrightarrow> (of_nat i :: word32) = of_nat j \<longleftrightarrow> i = j"
  by (auto dest!: arg_cong [where f = unat] simp: unat_of_nat)

section \<open>Properties\<close>

text \<open>
  C32. A Digest challenge is read back exactly: realm, nonce, qop, opaque and algorithm of the
  \<open>WWW-Authenticate\<close> header, for all values without a double quote in which no parameter name is
  followed by an equals sign.
\<close>

theorem challenge_roundtrip:
  assumes "challenge_ok c"
  shows "ParseWWWAuthenticate (challengeText c) = c"
proof -
  have "challengeText c \<noteq> []" by (simp add: challengeText_def field_def)
  then show ?thesis
    using challenge_fields [OF assms] challenge_digest [OF assms] assms
    by (simp add: ParseWWWAuthenticate_def chooseQop_def challenge_ok_def Let_def)
qed

theorem challenge_roundtrip_witness:
  "ParseWWWAuthenticate (challengeText
     \<lparr> ch_realm = ''cam'', ch_nonce = ''dcd98b=='', ch_qop = ''auth'', ch_opaque = ''5ccc'',
       ch_algorithm = ''MD5'', ch_isDigest = True \<rparr>) =
   \<lparr> ch_realm = ''cam'', ch_nonce = ''dcd98b=='', ch_qop = ''auth'', ch_opaque = ''5ccc'',
     ch_algorithm = ''MD5'', ch_isDigest = True \<rparr>"
  by (rule challenge_roundtrip) code_simp



text \<open>
  \<open>ParseAuthorizationHeader\<close> never reads a field: for every text that holds a Digest
  authorization it returns a header whose fields are all empty.
\<close>

theorem ParseAuthorizationHeader_empty:
  "ParseAuthorizationHeader sscanf (s @ ''Authorization: Digest '' @ t) = Some no_fields"
proof -
  have "find_sub ''Authorization: Digest '' (s @ ''Authorization: Digest '' @ t) \<noteq> None"
    unfolding find_sub_None_iff by (auto intro!: exI [of _ "length s"] simp del: append_Cons)
  moreover have "authFields sscanf flds no_fields = no_fields" for flds
    by (subst authFields.simps) (simp add: sscanf_def)
  ultimately show ?thesis by (auto simp: ParseAuthorizationHeader_def simp del: append_Cons append_Nil)
qed

end
