(* ===== verification/Rtsp_Message.thy ===== *)
theory Rtsp_Message
  imports Go_Prelude
begin

text \<open>
  The line and header helpers of \<open>message.go\<close>, shared by the request and the response parser
  and by the read loop: \<open>sharedLineSplit\<close>, \<open>canonicalHeaderKey\<close>, \<open>headerGet\<close>,
  \<open>sharedParseHeader\<close>, \<open>sharedParseContentLength\<close>, \<open>indexBytes\<close>, and the header loop that
  \<open>ParseRequest\<close> and \<open>ParseResponse\<close> both run. The lemmas show that the splitter and the
  header parser invert the printer, that a header lookup ignores the case of the key, and that
  \<open>indexBytes\<close> agrees with the library's substring search.
\<close>

section \<open>Definitions\<close>

type_synonym go_error = string
type_synonym headers = "(string, string) gomap"

text \<open>\<open>sharedLineSplit\<close> returns the rest and the line, in this order.\<close>

fun sharedLineSplit :: "string \<Rightarrow> string \<times> string" where
  "sharedLineSplit [] = ([], [])"
| "sharedLineSplit (c # buf) =
     (if c = CR \<or> c = LF
      then (if c = CR \<and> buf \<noteq> [] \<and> hd buf = LF then tl buf else buf, [])
      else (let (rest, line) = sharedLineSplit buf in (rest, c # line)))"

fun canonLoop :: "bool \<Rightarrow> string \<Rightarrow> string" where
  "canonLoop up [] = []"
| "canonLoop up (c # cs) =
     (if up \<and> is_lower c then to_byte (byte_val c - 32)
      else if \<not> up \<and> is_upper c then to_byte (byte_val c + 32)
      else c) # canonLoop (c = CHR ''-'') cs"

definition canonicalHeaderKey :: "string \<Rightarrow> string" where
  "canonicalHeaderKey s = (let t = trimSpace s in if t = [] then t else canonLoop True t)"

definition headerGet :: "headers \<Rightarrow> string \<Rightarrow> string" where
  "headerGet headers key =
     (case mget headers key of
        Some v \<Rightarrow> v
      | None \<Rightarrow>
          (case mget headers (canonicalHeaderKey key) of
             Some v \<Rightarrow> v
           | None \<Rightarrow>
               (case find (\<lambda>(k, v). toLower k = toLower key) headers of
                  Some (k, v) \<Rightarrow> v
                | None \<Rightarrow> [])))"

datatype header_state = HValue | HSkip

text \<open>The two-state loop of \<open>sharedParseHeader\<close> that copies the value.\<close>

fun headerValue :: "header_state \<Rightarrow> string \<Rightarrow> string" where
  "headerValue st [] = []"
| "headerValue HValue (c # cs) =
     (if c = TAB \<or> c = CR \<or> c = LF then headerValue HValue cs
      else c # headerValue (if c = CHR '';'' then HSkip else HValue) cs)"
| "headerValue HSkip (c # cs) =
     (if c \<noteq> SP \<and> c \<noteq> TAB \<and> c \<noteq> CR \<and> c \<noteq> LF then c # headerValue HValue cs
      else headerValue HSkip cs)"

definition sharedParseHeader :: "string \<Rightarrow> go_error + (string \<times> string)" where
  "sharedParseHeader line =
     (if CHR '':'' \<notin> set line then Inl ''header parse error: missing colon''
      else let key = canonicalHeaderKey (takeWhile (\<lambda>c. c \<noteq> CHR '':'') line);
               rest = tl (dropWhile (\<lambda>c. c \<noteq> CHR '':'') line)
           in Inr (key, headerValue HValue (dropWhile (\<lambda>c. c = SP \<or> c = TAB) rest)))"

text \<open>
  The inner loop of \<open>indexBytes\<close> compares at position \<open>i\<close>; the outer loop moves \<open>i\<close>.
\<close>

function matchFrom :: "string \<Rightarrow> string \<Rightarrow> nat \<Rightarrow> nat \<Rightarrow> bool" where
  "matchFrom haystack needle i j =
     (if j < length needle
      then (if haystack ! (i + j) \<noteq> needle ! j then False else matchFrom haystack needle i (Suc j))
      else True)"
  by pat_completeness auto
termination
  by (relation "measure (\<lambda>(h, n, i, j). length n - j)") auto

function indexFrom :: "string \<Rightarrow> string \<Rightarrow> nat \<Rightarrow> int" where
  "indexFrom haystack needle i =
     (if i + length needle \<le> length haystack
      then (if matchFrom haystack needle i 0 then int i else indexFrom haystack needle (Suc i))
      else -1)"
  by pat_completeness auto
termination
  by (relation "measure (\<lambda>(h, n, i). Suc (length h) - i)") auto

declare matchFrom.simps [simp del] indexFrom.simps [simp del]

definition indexBytes :: "string \<Rightarrow> string \<Rightarrow> int" where
  "indexBytes haystack needle = (if needle = [] then 0 else indexFrom haystack needle 0)"

text \<open>The case-insensitive comparison of \<open>sharedParseContentLength\<close> and its scan.\<close>

fun ciPrefix :: "string \<Rightarrow> string \<Rightarrow> bool" where
  "ciPrefix [] s = True"
| "ciPrefix (n # ns) [] = False"
| "ciPrefix (n # ns) (c # cs) = (lower c = n \<and> ciPrefix ns cs)"

definition clNeedle :: string where
  "clNeedle = ''content-length:''"

fun clScan :: "string \<Rightarrow> string option" where
  "clScan [] = None"
| "clScan (c # cs) =
     (if ciPrefix clNeedle (c # cs) then Some (drop (length clNeedle) (c # cs)) else clScan cs)"

definition sharedParseContentLength :: "string \<Rightarrow> int" where
  "sharedParseContentLength headerPart =
     (case clScan headerPart of
        None \<Rightarrow> 0
      | Some rest \<Rightarrow>
          (let lineEnd = indexBytes rest CRLF;
               n = (if lineEnd < 0 then length rest else nat lineEnd)
           in atoi_val (trimSpace (take n rest))))"

lemma sharedLineSplit_less:
  "sharedLineSplit buf = (rest, line) \<Longrightarrow> line \<noteq> [] \<Longrightarrow> length rest < length buf"
proof (induction buf arbitrary: rest line)
  case Nil
  then show ?case by simp
next
  case (Cons c buf)
  show ?case
  proof (cases "c = CR \<or> c = LF")
    case True
    with Cons.prems show ?thesis by (auto split: if_splits)
  next
    case False
    then obtain line' where l: "sharedLineSplit buf = (rest, line')"
      using Cons.prems by (auto split: prod.splits)
    have "length rest \<le> length buf"
      using l Cons.IH [OF l]
      by (cases "line' = []"; cases buf) (auto split: if_splits prod.splits)
    then show ?thesis by simp
  qed
qed

text \<open>The header loop of \<open>ParseRequest\<close> and \<open>ParseResponse\<close>, up to the first empty line.\<close>

function parseHeaders :: "string \<Rightarrow> headers \<Rightarrow> go_error + (headers \<times> string)" where
  "parseHeaders buf headers =
     (let (rest, line) = sharedLineSplit buf
      in if line = [] then Inr (headers, rest)
         else (case sharedParseHeader line of
                 Inl e \<Rightarrow> Inl e
               | Inr (key, value) \<Rightarrow> parseHeaders rest (mput key value headers)))"
  by pat_completeness auto
termination
  by (relation "measure (\<lambda>(buf, headers). length buf)") (auto dest: sharedLineSplit_less [OF sym])

declare parseHeaders.simps [simp del]

section \<open>Lines\<close>

definition no_eol :: "string \<Rightarrow> bool" where
  "no_eol s = (CR \<notin> set s \<and> LF \<notin> set s)"

lemma sharedLineSplit_crlf [simp]: "no_eol l \<Longrightarrow> sharedLineSplit (l @ CR # LF # rest) = (rest, l)"
  by (induction l) (auto simp: no_eol_def)

lemma sharedLineSplit_lf: "no_eol l \<Longrightarrow> sharedLineSplit (l @ LF # rest) = (rest, l)"
  by (induction l) (auto simp: no_eol_def)

lemma sharedLineSplit_line: "sharedLineSplit buf = (rest, line) \<Longrightarrow> no_eol line"
  by (induction buf arbitrary: rest line) (auto simp: no_eol_def split: if_splits prod.splits)

section \<open>Substring search\<close>

lemma matchFrom_iff:
  "i + length n \<le> length h \<Longrightarrow>
     matchFrom h n i j \<longleftrightarrow> (\<forall>k. j \<le> k \<longrightarrow> k < length n \<longrightarrow> h ! (i + k) = n ! k)"
proof (induction h n i j rule: matchFrom.induct)
  case (1 h n i j)
  have split: "(\<forall>k\<ge>j. k < length n \<longrightarrow> P k) \<longleftrightarrow> P j \<and> (\<forall>k\<ge>Suc j. k < length n \<longrightarrow> P k)"
    if "j < length n" for P
    using that by (metis Suc_le_eq le_neq_implies_less less_imp_le order.refl)
  from 1 show ?case
    by (subst matchFrom.simps) (auto simp: split)
qed

lemma matchFrom_prefix:
  assumes "i + length n \<le> length h"
  shows "matchFrom h n i 0 \<longleftrightarrow> prefix n (drop i h)"
proof -
  have "prefix n (drop i h) \<longleftrightarrow> take (length n) (drop i h) = n"
    by (metis append_take_drop_id prefixI prefix_def append_eq_conv_conj)
  also have "\<dots> \<longleftrightarrow> (\<forall>k<length n. h ! (i + k) = n ! k)"
    using assms by (auto simp: list_eq_iff_nth_eq)
  finally show ?thesis using assms by (simp add: matchFrom_iff)
qed

lemma indexFrom_spec:
  assumes "needle \<noteq> []" "\<forall>j<i. \<not> prefix needle (drop j h)" "i \<le> Suc (length h)"
  shows "indexFrom h needle i = (case find_sub needle h of None \<Rightarrow> -1 | Some k \<Rightarrow> int k)"
  using assms
proof (induction h needle i rule: indexFrom.induct)
  case (1 h n i)
  consider (short) "\<not> i + length n \<le> length h"
    | (hit) "i + length n \<le> length h" "prefix n (drop i h)"
    | (miss) "i + length n \<le> length h" "\<not> prefix n (drop i h)"
    by blast
  then show ?case
  proof cases
    case short
    have "\<not> prefix n (drop j h)" if "j \<ge> i" for j
      using short that "1.prems"(1) by (auto dest!: prefix_length_le simp flip: length_greater_0_conv)
    then have "find_sub n h = None"
      using "1.prems"(2) by (metis find_sub_None_iff not_less)
    with short show ?thesis by (subst indexFrom.simps) simp
  next
    case hit
    then have "find_sub n h = Some i"
      using "1.prems" by (simp add: find_sub_Some_iff)
    with hit show ?thesis by (subst indexFrom.simps) (simp add: matchFrom_prefix)
  next
    case miss
    then have "indexFrom h n i = indexFrom h n (Suc i)"
      by (subst indexFrom.simps) (simp add: matchFrom_prefix)
    with miss 1 show ?thesis
      by (simp add: matchFrom_prefix less_Suc_eq)
  qed
qed


text \<open>\<open>indexBytes\<close>, the hand-written search of \<open>message.go\<close>, returns the position of the
  first occurrence of the needle, or -1 when there is none: it agrees with the library search
  (\<open>bytes.Index\<close>) on every input, the empty needle included.\<close>

theorem indexBytes_find_sub:
  "indexBytes haystack needle = (case find_sub needle haystack of None \<Rightarrow> -1 | Some i \<Rightarrow> int i)"
proof (cases "needle = []")
  case True
  then show ?thesis by (cases haystack) (simp_all add: indexBytes_def)
next
  case False
  then show ?thesis by (simp add: indexBytes_def indexFrom_spec)
qed

section \<open>Header keys\<close>

lemma upper_lower [simp]: "upper (lower c) = upper c"
  by (auto simp: byte_class_defs)

lemma lower_dash [simp]: "lower c = CHR ''-'' \<longleftrightarrow> c = CHR ''-''"
proof
  assume a: "lower c = CHR ''-''"
  show "c = CHR ''-''"
  proof (cases "is_upper c")
    case True
    from a have "byte_val (lower c) = 45" by (simp add: byte_val_def)
    with True show ?thesis by (simp add: lower_def is_upper_def)
  next
    case False
    with a show ?thesis by (simp add: lower_def)
  qed
qed (simp add: lower_def is_upper_def byte_val_def)

lemma canonLoop_Cons:
  "canonLoop up (c # cs) = (if up then upper c else lower c) # canonLoop (c = CHR ''-'') cs"
  by (simp add: upper_def lower_def)

lemma canonLoop_cong: "map lower s = map lower t \<Longrightarrow> canonLoop up s = canonLoop up t"
proof (induction s arbitrary: t up)
  case Nil
  then show ?case by simp
next
  case (Cons c s)
  then obtain d t' where t: "t = d # t'" "lower c = lower d" "map lower s = map lower t'"
    by (cases t) auto
  then have "upper c = upper d" "c = CHR ''-'' \<longleftrightarrow> d = CHR ''-''"
    by (metis upper_lower) (metis t(2) lower_dash)
  with Cons.IH [OF t(3)] t show ?case by (simp only: canonLoop_Cons)
qed

lemma map_lower_canonLoop [simp]: "map lower (canonLoop up s) = map lower s"
  by (induction s arbitrary: up) (simp_all only: canonLoop_Cons list.map, auto)

lemma canonLoop_idem [simp]: "canonLoop up (canonLoop up s) = canonLoop up s"
  by (rule canonLoop_cong) simp

lemma visible_ascii: "visible c \<Longrightarrow> is_ascii c"
  by (simp add: visible_def is_ascii_def)

lemma visible_lower [simp]: "visible (lower c) = visible c"
  by (auto simp: visible_def byte_class_defs)

lemma visible_cong: "map lower s = map lower t \<Longrightarrow> list_all visible s = list_all visible t"
  by (metis list.pred_map list.pred_cong comp_apply visible_lower)

lemma canonicalHeaderKey_visible:
  "list_all visible s \<Longrightarrow> canonicalHeaderKey s = canonLoop True s"
  by (simp add: canonicalHeaderKey_def trimSpace_all_visible)

text \<open>A canonical key: what \<open>canonicalHeaderKey\<close> returns for a key of visible ASCII bytes.\<close>

definition canonical :: "string \<Rightarrow> bool" where
  "canonical k = (list_all visible k \<and> canonicalHeaderKey k = k)"

lemma canonical_canonicalHeaderKey: "list_all visible k \<Longrightarrow> canonical (canonicalHeaderKey k)"
  using visible_cong [OF map_lower_canonLoop, of True k]
  by (simp add: canonical_def canonicalHeaderKey_visible)

lemma canonical_unique:
  "canonical k \<Longrightarrow> list_all visible key \<Longrightarrow> map lower k = map lower key \<Longrightarrow> canonicalHeaderKey key = k"
  by (metis canonLoop_cong canonical_def canonicalHeaderKey_visible)

definition canonical_headers :: "headers \<Rightarrow> bool" where
  "canonical_headers hs = (gomap_wf hs \<and> list_all canonical (map fst hs))"

lemma toLower_visible: "list_all visible s \<Longrightarrow> toLower s = map lower s"
  by (rule toLower_ascii) (auto simp: list_all_iff visible_ascii)

lemma headerGet_canonical:
  assumes hs: "canonical_headers hs" and key: "list_all visible key"
  shows "headerGet hs key = mget_str hs (canonicalHeaderKey key)"
proof (cases "mget hs key")
  case (Some v)
  then have "key \<in> set (map fst hs)" by (auto dest!: map_of_SomeD intro: rev_image_eqI)
  with hs have "canonicalHeaderKey key = key"
    by (auto simp: canonical_headers_def canonical_def list_all_iff)
  with Some show ?thesis by (simp add: headerGet_def mget_str_def)
next
  case none: None
  show ?thesis
  proof (cases "mget hs (canonicalHeaderKey key)")
    case (Some v)
    with none show ?thesis by (simp add: headerGet_def mget_str_def)
  next
    case None
    have "find (\<lambda>(k, v). toLower k = toLower key) hs = None"
    proof (rule ccontr)
      assume "find (\<lambda>(k, v). toLower k = toLower key) hs \<noteq> None"
      then obtain k v where kv: "(k, v) \<in> set hs" "toLower k = toLower key"
        by (auto simp: find_Some_iff) (metis nth_mem)
      with hs have "canonical k" by (auto simp: canonical_headers_def list_all_iff)
      with kv key have "canonicalHeaderKey key = k"
        by (intro canonical_unique) (auto simp: toLower_visible canonical_def)
      with kv None show False by (force simp: map_of_eq_None_iff)
    qed
    with none None show ?thesis by (simp add: headerGet_def mget_str_def)
  qed
qed

text \<open>A header lookup ignores the case of the key: in a parsed header block (all keys
  canonical) \<open>headerGet\<close> returns the same value for any two spellings of a key.\<close>

theorem headerGet_case_insensitive:
  assumes "canonical_headers hs" "list_all visible key" "map lower key = map lower key'"
  shows "headerGet hs key = headerGet hs key'"
proof -
  have "list_all visible key'" using assms visible_cong by blast
  with assms show ?thesis
    by (simp add: headerGet_canonical canonicalHeaderKey_visible canonLoop_cong [OF assms(3)])
qed

theorem headerGet_case_insensitive_witness:
  "headerGet [(''Content-Length'', ''42'')] ''CONTENT-length'' = ''42''"
proof -
  have "headerGet [(''Content-Length'', ''42'')] ''Content-Length''
      = headerGet [(''Content-Length'', ''42'')] ''CONTENT-length''"
    by (rule headerGet_case_insensitive) code_simp+
  moreover have "headerGet [(''Content-Length'', ''42'')] ''Content-Length'' = ''42''"
    by (simp add: headerGet_def)
  ultimately show ?thesis by simp
qed


section \<open>Printing and parsing header lines\<close>

text \<open>
  A value the header parser leaves alone: no tab and no line end, no leading blank, no blank
  right after a semicolon.
\<close>

fun cleanFrom :: "header_state \<Rightarrow> string \<Rightarrow> bool" where
  "cleanFrom st [] = True"
| "cleanFrom st (c # cs) =
     (c \<noteq> TAB \<and> c \<noteq> CR \<and> c \<noteq> LF \<and> (st = HSkip \<longrightarrow> c \<noteq> SP) \<and>
      cleanFrom (if st = HValue \<and> c = CHR '';'' then HSkip else HValue) cs)"

definition clean_value :: "string \<Rightarrow> bool" where
  "clean_value v = (cleanFrom HValue v \<and> (v \<noteq> [] \<longrightarrow> hd v \<noteq> SP))"

definition header_ok :: "string \<times> string \<Rightarrow> bool" where
  "header_ok kv = (canonical (fst kv) \<and> CHR '':'' \<notin> set (fst kv) \<and> clean_value (snd kv))"

definition headerLine :: "string \<times> string \<Rightarrow> string" where
  "headerLine kv = fst kv @ '': '' @ snd kv @ CRLF"

lemma headerValue_clean: "cleanFrom st v \<Longrightarrow> headerValue st v = v"
  by (induction st v rule: headerValue.induct) auto

lemma cleanFrom_no_eol: "cleanFrom st v \<Longrightarrow> no_eol v"
  by (induction st v rule: cleanFrom.induct) (auto simp: no_eol_def)

lemma canonical_no_eol: "canonical k \<Longrightarrow> no_eol k"
  by (auto simp: canonical_def no_eol_def list_all_iff visible_def byte_val_def)

lemma sharedParseHeader_print:
  assumes "header_ok (k, v)"
  shows "sharedParseHeader (k @ '': '' @ v) = Inr (k, v)"
proof -
  from assms have k: "CHR '':'' \<notin> set k" "canonicalHeaderKey k = k"
    and v: "cleanFrom HValue v" "v \<noteq> [] \<longrightarrow> hd v \<noteq> SP"
    by (auto simp: header_ok_def canonical_def clean_value_def)
  have "dropWhile (\<lambda>c. c = SP \<or> c = TAB) (SP # v) = v"
    using v by (cases v) auto
  then show ?thesis
    using k v(1) by (simp add: sharedParseHeader_def headerValue_clean)
qed

lemma parseHeaders_line:
  assumes "header_ok kv"
  shows "parseHeaders (headerLine kv @ rest) hs = parseHeaders rest (mput (fst kv) (snd kv) hs)"
proof -
  obtain k v where kv: "kv = (k, v)" by (cases kv)
  have "no_eol (k @ '': '' @ v)"
    using assms canonical_no_eol cleanFrom_no_eol
    by (auto simp: kv header_ok_def clean_value_def no_eol_def)
  then have "sharedLineSplit (headerLine kv @ rest) = (rest, k @ '': '' @ v)"
    using sharedLineSplit_crlf [of "k @ '': '' @ v" rest] by (simp add: headerLine_def kv)
  with assms sharedParseHeader_print [of k v] show ?thesis
    by (subst parseHeaders.simps) (simp add: kv)
qed

lemma parseHeaders_end [simp]: "parseHeaders (CRLF @ rest) hs = Inr (hs, rest)"
  by (subst parseHeaders.simps) simp

text \<open>The header loop reads back a printed header block and stops at the empty line.\<close>

lemma parseHeaders_print:
  "list_all header_ok es \<Longrightarrow>
     parseHeaders (concat (map headerLine es) @ CRLF @ rest) hs =
     Inr (fold (\<lambda>kv. mput (fst kv) (snd kv)) es hs, rest)"
proof (induction es arbitrary: hs)
  case Nil
  then show ?case using parseHeaders_end [of rest hs] by simp
next
  case (Cons kv es)
  then show ?case using parseHeaders_line [of kv "concat (map headerLine es) @ CRLF @ rest" hs] by simp
qed

lemma fold_mput_new:
  "gomap_wf (hs @ es) \<Longrightarrow> fold (\<lambda>kv. mput (fst kv) (snd kv)) es hs = hs @ es"
proof (induction es arbitrary: hs)
  case Nil
  then show ?case by simp
next
  case (Cons kv es)
  then have "mget hs (fst kv) = None" by (auto simp: map_of_eq_None_iff)
  then have "mput (fst kv) (snd kv) hs = hs @ [kv]" by (simp add: mput_new)
  with Cons show ?case by simp
qed

lemma parseHeaders_canonical:
  assumes "parseHeaders buf hs = Inr (hs', rest)" "gomap_wf hs"
  shows "gomap_wf hs'"
  using assms
proof (induction buf hs rule: parseHeaders.induct)
  case (1 buf hs)
  from "1.prems" show ?case
    by (subst (asm) parseHeaders.simps)
      (auto split: prod.splits sum.splits if_splits intro: "1.IH" distinct_update)
qed


end
