(* ===== verification/Net_Url.thy ===== *)
theory Net_Url
  imports Rtsp_Message
begin

text \<open>
  The part of Go's \<open>net/url\<close> that the proxy uses: the \<open>URL\<close> and \<open>Userinfo\<close> structs,
  \<open>url.Parse\<close>, percent-decoding and percent-encoding, and \<open>URL.String\<close>. The lemmas give the
  components of a plain \<open>rtsp://[user:password@]host[:port]/path\<close> URL and show that printing
  such a URL gives its text back.
\<close>

section \<open>Definitions\<close>

record userinfo =
  ui_username :: string
  ui_password :: "string option"

record url =
  Scheme :: string
  Opaque :: string
  User :: "userinfo option"
  Host :: string
  Path :: string
  RawPath :: string
  OmitHost :: bool
  ForceQuery :: bool
  RawQuery :: string
  Fragment :: string
  RawFragment :: string

definition url_zero :: url where
  "url_zero = \<lparr>Scheme = [], Opaque = [], User = None, Host = [], Path = [], RawPath = [],
     OmitHost = False, ForceQuery = False, RawQuery = [], Fragment = [], RawFragment = []\<rparr>"

text \<open>\<open>&url.URL{Scheme: "rtsp", Host: host, Path: path}\<close>, as the remote builds its targets.\<close>

definition rtsp_url :: "string \<Rightarrow> string \<Rightarrow> url" where
  "rtsp_url host path = url_zero\<lparr>Scheme := ''rtsp'', Host := host, Path := path\<rparr>"

datatype encoding = EncPath | EncHost | EncZone | EncUserPassword | EncFragment

definition is_alnum :: "byte \<Rightarrow> bool" where
  "is_alnum c = (is_lower c \<or> is_upper c \<or> is_digit c)"

definition unreserved :: "byte \<Rightarrow> bool" where
  "unreserved c = (is_alnum c \<or> c \<in> set ''-_.~'')"

text \<open>Which bytes each component of a URL percent-encodes.\<close>

definition shouldEscape :: "byte \<Rightarrow> encoding \<Rightarrow> bool" where
  "shouldEscape c mode =
     (if unreserved c then False
      else if (mode = EncHost \<or> mode = EncZone) \<and>
              c \<in> set (''!$&()*+,;=:[]<>'' @ [CHR 0x22, CHR 0x27]) then False
      else if c \<in> set ''$&+,/:;=?@'' \<and> mode = EncPath then c = CHR ''?''
      else if c \<in> set ''$&+,/:;=?@'' \<and> mode = EncUserPassword then c \<in> set ''@/?:''
      else if c \<in> set ''$&+,/:;=?@'' \<and> mode = EncFragment then False
      else if mode = EncFragment \<and> c \<in> set ''!()*'' then False
      else True)"

definition is_hex :: "byte \<Rightarrow> bool" where
  "is_hex c = (is_digit c \<or> c \<in> set ''abcdefABCDEF'')"

definition unhex :: "byte \<Rightarrow> int" where
  "unhex c =
     (if is_digit c then byte_val c - 48
      else if is_lower c then byte_val c - 87
      else byte_val c - 55)"

definition upperhex :: "int \<Rightarrow> byte" where
  "upperhex d = to_byte (if d < 10 then 48 + d else 55 + d)"

fun escape :: "encoding \<Rightarrow> string \<Rightarrow> string" where
  "escape mode [] = []"
| "escape mode (c # s) =
     (if shouldEscape c mode
      then CHR ''%'' # upperhex (byte_val c div 16) # upperhex (byte_val c mod 16) # escape mode s
      else c # escape mode s)"

text \<open>
  \<open>unescape\<close>: well-formedness and decoding in one pass. In a host only bytes outside ASCII
  (and \<open>%25\<close>) may be encoded, and bytes that would need encoding are errors.
\<close>

fun unescape :: "encoding \<Rightarrow> string \<Rightarrow> go_error + string" where
  "unescape mode [] = Inr []"
| "unescape mode (c # s) =
     (if c = CHR ''%'' then
        (case s of
           a # b # s' \<Rightarrow>
             (let v = to_byte (16 * unhex a + unhex b); pc = (a = CHR ''2'' \<and> b = CHR ''5'')
              in if \<not> is_hex a \<or> \<not> is_hex b then Inl ''invalid URL escape''
                 else if mode = EncHost \<and> unhex a < 8 \<and> \<not> pc then Inl ''invalid URL escape''
                 else if mode = EncZone \<and> \<not> pc \<and> v \<noteq> SP \<and> shouldEscape v EncHost
                 then Inl ''invalid URL escape''
                 else map_sum id ((#) v) (unescape mode s'))
         | _ \<Rightarrow> Inl ''invalid URL escape'')
      else if (mode = EncHost \<or> mode = EncZone) \<and> is_ascii c \<and> shouldEscape c mode
      then Inl ''invalid character in host name''
      else map_sum id ((#) c) (unescape mode s))"

fun getScheme :: "bool \<Rightarrow> string \<Rightarrow> (go_error + string \<times> string) option" where
  "getScheme first [] = None"
| "getScheme first (c # s) =
     (if is_lower c \<or> is_upper c then map_option (map_sum id (\<lambda>(x, y). (c # x, y))) (getScheme False s)
      else if is_digit c \<or> c \<in> set ''+-.'' then
        (if first then None
         else map_option (map_sum id (\<lambda>(x, y). (c # x, y))) (getScheme False s))
      else if c = CHR '':'' then
        (if first then Some (Inl ''missing protocol scheme'') else Some (Inr ([], s)))
      else None)"

text \<open>\<open>netip.ParseAddr\<close> on the inside of a bracketed host: is it an IPv6 address?\<close>

definition v4_field :: "string \<Rightarrow> bool" where
  "v4_field f =
     (f \<noteq> [] \<and> length f \<le> 3 \<and> list_all is_digit f \<and> (hd f = CHR ''0'' \<longrightarrow> length f = 1) \<and>
      atoi_val f \<le> 255)"

definition valid_v4 :: "string \<Rightarrow> bool" where
  "valid_v4 s = (let fs = split (CHR ''.'') s in length fs = 4 \<and> list_all v4_field fs)"

fun v6_groups :: "nat \<Rightarrow> nat \<Rightarrow> bool \<Rightarrow> string \<Rightarrow> bool" where
  "v6_groups 0 i ell s = False"
| "v6_groups (Suc n) i ell s =
     (if 16 \<le> i then s = [] \<and> \<not> ell
      else let run = takeWhile is_hex s; t = dropWhile is_hex s
           in if run = [] \<or> 4 < length run then False
              else if t \<noteq> [] \<and> hd t = CHR ''.'' then
                (ell \<or> i = 12) \<and> i + 4 \<le> 16 \<and> valid_v4 s \<and> (i + 4 < 16 \<longrightarrow> ell) \<and>
                (i + 4 = 16 \<longrightarrow> \<not> ell)
              else if t = [] then (i + 2 < 16 \<longrightarrow> ell) \<and> (i + 2 = 16 \<longrightarrow> \<not> ell)
              else if hd t \<noteq> CHR '':'' \<or> length t = 1 then False
              else if hd (tl t) = CHR '':'' then
                \<not> ell \<and> (if tl (tl t) = [] then i + 2 < 16 else v6_groups n (i + 2) True (tl (tl t)))
              else v6_groups n (i + 2) ell (tl t))"

definition valid_v6 :: "string \<Rightarrow> bool" where
  "valid_v6 addr =
     (let s = takeWhile (\<lambda>c. c \<noteq> CHR ''%'') addr
      in (CHR ''%'' \<in> set addr \<longrightarrow> tl (dropWhile (\<lambda>c. c \<noteq> CHR ''%'') addr) \<noteq> []) \<and>
         CHR '':'' \<in> set (takeWhile (\<lambda>c. c \<noteq> CHR ''.'') s) \<and>
         (if prefix ''::'' s
          then drop 2 s = [] \<or> v6_groups 9 0 True (drop 2 s)
          else v6_groups 9 0 False s))"

definition validOptionalPort :: "string \<Rightarrow> bool" where
  "validOptionalPort port = (port = [] \<or> (hd port = CHR '':'' \<and> list_all is_digit (tl port)))"

definition last_cut :: "byte \<Rightarrow> string \<Rightarrow> (string \<times> string) option" where
  "last_cut c s =
     (if c \<in> set s
      then Some (rev (tl (dropWhile (\<lambda>x. x \<noteq> c) (rev s))), rev (takeWhile (\<lambda>x. x \<noteq> c) (rev s)))
      else None)"

definition parseHost :: "string \<Rightarrow> go_error + string" where
  "parseHost host =
     (case last_cut (CHR ''['') host of
        Some (pre, inner) \<Rightarrow>
          if pre \<noteq> [] then Inl ''invalid IP-literal''
          else (case last_cut (CHR '']'') inner of
             None \<Rightarrow> Inl ''missing ] in host''
           | Some (hostname, colonPort) \<Rightarrow>
               if \<not> validOptionalPort colonPort then Inl ''invalid port after host''
               else (case (case find_sub ''%25'' hostname of
                             None \<Rightarrow> unescape EncHost hostname
                           | Some z \<Rightarrow>
                               (case unescape EncHost (take z hostname) of
                                  Inl e \<Rightarrow> Inl e
                                | Inr h1 \<Rightarrow> map_sum id (\<lambda>h2. h1 @ h2) (unescape EncZone (drop z hostname)))) of
                       Inl e \<Rightarrow> Inl e
                     | Inr h \<Rightarrow> if valid_v6 h then Inr (''['' @ h @ '']'' @ colonPort)
                                else Inl ''invalid host''))
      | None \<Rightarrow>
          if CHR '':'' \<in> set host \<and>
             \<not> validOptionalPort (dropWhile (\<lambda>c. c \<noteq> CHR '':'') host)
          then Inl ''invalid port after host''
          else unescape EncHost host)"

definition validUserinfo :: "string \<Rightarrow> bool" where
  "validUserinfo s =
     list_all (\<lambda>c. is_alnum c \<or> c \<in> set (''-._:~!$&()*+,;=%@'' @ [CHR 0x27])) s"

definition parseAuthority :: "string \<Rightarrow> go_error + userinfo option \<times> string" where
  "parseAuthority authority =
     (case last_cut (CHR ''@'') authority of
        None \<Rightarrow> map_sum id (\<lambda>h. (None, h)) (parseHost authority)
      | Some (ui, h) \<Rightarrow>
          (case parseHost h of
             Inl e \<Rightarrow> Inl e
           | Inr host \<Rightarrow>
               if \<not> validUserinfo ui then Inl ''net/url: invalid userinfo''
               else if CHR '':'' \<notin> set ui then
                 map_sum id (\<lambda>u. (Some \<lparr>ui_username = u, ui_password = None\<rparr>, host))
                   (unescape EncUserPassword ui)
               else
                 (case unescape EncUserPassword (takeWhile (\<lambda>c. c \<noteq> CHR '':'') ui) of
                    Inl e \<Rightarrow> Inl e
                  | Inr u \<Rightarrow>
                      map_sum id (\<lambda>p. (Some \<lparr>ui_username = u, ui_password = Some p\<rparr>, host))
                        (unescape EncUserPassword (tl (dropWhile (\<lambda>c. c \<noteq> CHR '':'') ui))))))"

definition setPath :: "string \<Rightarrow> url \<Rightarrow> go_error + url" where
  "setPath p u =
     map_sum id (\<lambda>path. u\<lparr>Path := path, RawPath := if p = escape EncPath path then [] else p\<rparr>)
       (unescape EncPath p)"

definition setFragment :: "string \<Rightarrow> url \<Rightarrow> go_error + url" where
  "setFragment f u =
     map_sum id
       (\<lambda>frag. u\<lparr>Fragment := frag, RawFragment := if f = escape EncFragment frag then [] else f\<rparr>)
       (unescape EncFragment f)"

text \<open>The query is cut off first; a single trailing question mark sets \<open>ForceQuery\<close>.\<close>

definition cutQuery :: "string \<Rightarrow> url \<Rightarrow> string \<times> url" where
  "cutQuery rest u =
     (if rest \<noteq> [] \<and> last rest = CHR ''?'' \<and> CHR ''?'' \<notin> set (butlast rest)
      then (butlast rest, u\<lparr>ForceQuery := True\<rparr>)
      else (takeWhile (\<lambda>c. c \<noteq> CHR ''?'') rest,
            u\<lparr>RawQuery := tl (dropWhile (\<lambda>c. c \<noteq> CHR ''?'') rest)\<rparr>))"

definition parseHierarchy :: "string \<Rightarrow> url \<Rightarrow> go_error + url" where
  "parseHierarchy rest u =
     (if (Scheme u \<noteq> [] \<or> \<not> prefix ''///'' rest) \<and> prefix ''//'' rest then
        (let a = drop 2 rest
         in case parseAuthority (takeWhile (\<lambda>c. c \<noteq> CHR ''/'') a) of
              Inl e \<Rightarrow> Inl e
            | Inr (user, host) \<Rightarrow>
                setPath (dropWhile (\<lambda>c. c \<noteq> CHR ''/'') a) (u\<lparr>User := user, Host := host\<rparr>))
      else setPath rest (u\<lparr>OmitHost := (Scheme u \<noteq> [] \<and> prefix ''/'' rest)\<rparr>))"

definition parseNoFrag :: "string \<Rightarrow> go_error + url" where
  "parseNoFrag rawURL =
     (if list_ex (\<lambda>c. byte_val c < 32 \<or> byte_val c = 127) rawURL
      then Inl ''net/url: invalid control character in URL''
      else if rawURL = ''*'' then Inr (url_zero\<lparr>Path := ''*''\<rparr>)
      else (case (case getScheme True rawURL of None \<Rightarrow> Inr ([], rawURL) | Some r \<Rightarrow> r) of
              Inl e \<Rightarrow> Inl e
            | Inr (scheme, rest0) \<Rightarrow>
                (let (rest, u) = cutQuery rest0 (url_zero\<lparr>Scheme := map lower scheme\<rparr>)
                 in if \<not> prefix ''/'' rest \<and> Scheme u \<noteq> [] then Inr (u\<lparr>Opaque := rest\<rparr>)
                    else if \<not> prefix ''/'' rest \<and>
                            CHR '':'' \<in> set (takeWhile (\<lambda>c. c \<noteq> CHR ''/'') rest)
                    then Inl ''first path segment in URL cannot contain colon''
                    else parseHierarchy rest u)))"

definition url_parse :: "string \<Rightarrow> go_error + url" where
  "url_parse rawURL =
     (case parseNoFrag (takeWhile (\<lambda>c. c \<noteq> CHR ''#'') rawURL) of
        Inl e \<Rightarrow> Inl e
      | Inr u \<Rightarrow>
          (let frag = tl (dropWhile (\<lambda>c. c \<noteq> CHR ''#'') rawURL)
           in if frag = [] then Inr u else setFragment frag u))"

definition validEncoded :: "string \<Rightarrow> encoding \<Rightarrow> bool" where
  "validEncoded s mode =
     list_all (\<lambda>c. c \<in> set (''!$&()*+,;=:@[]%'' @ [CHR 0x27]) \<or> \<not> shouldEscape c mode) s"

definition escapedPath :: "url \<Rightarrow> string" where
  "escapedPath u =
     (if RawPath u \<noteq> [] \<and> validEncoded (RawPath u) EncPath \<and>
         unescape EncPath (RawPath u) = Inr (Path u) then RawPath u
      else if Path u = ''*'' then ''*''
      else escape EncPath (Path u))"

definition escapedFragment :: "url \<Rightarrow> string" where
  "escapedFragment u =
     (if RawFragment u \<noteq> [] \<and> validEncoded (RawFragment u) EncFragment \<and>
         unescape EncFragment (RawFragment u) = Inr (Fragment u) then RawFragment u
      else escape EncFragment (Fragment u))"

definition userinfo_string :: "userinfo \<Rightarrow> string" where
  "userinfo_string ui =
     escape EncUserPassword (ui_username ui) @
     (case ui_password ui of None \<Rightarrow> [] | Some p \<Rightarrow> '':'' @ escape EncUserPassword p)"

definition url_authority :: "url \<Rightarrow> string" where
  "url_authority u =
     (if Scheme u = [] \<and> Host u = [] \<and> User u = None then []
      else if OmitHost u \<and> Host u = [] \<and> User u = None then []
      else (if Host u \<noteq> [] \<or> Path u \<noteq> [] \<or> User u \<noteq> None then ''//'' else []) @
           (case User u of None \<Rightarrow> [] | Some ui \<Rightarrow> userinfo_string ui @ ''@'') @
           escape EncHost (Host u))"

definition url_string :: "url \<Rightarrow> string" where
  "url_string u =
     (let sch = (if Scheme u \<noteq> [] then Scheme u @ '':'' else []);
          body =
            (if Opaque u \<noteq> [] then sch @ Opaque u
             else let pre = sch @ url_authority u; path = escapedPath u;
                      pre' = pre @ (if path \<noteq> [] \<and> hd path \<noteq> CHR ''/'' \<and> Host u \<noteq> [] then ''/'' else [])
                  in pre' @
                     (if pre' = [] \<and> CHR '':'' \<in> set (takeWhile (\<lambda>c. c \<noteq> CHR ''/'') path)
                      then ''./'' else []) @ path)
      in body @ (if ForceQuery u \<or> RawQuery u \<noteq> [] then ''?'' @ RawQuery u else []) @
         (if Fragment u \<noteq> [] then ''#'' @ escapedFragment u else []))"


section \<open>Plain URLs\<close>

text \<open>
  A plain name needs no encoding and holds no delimiter of the authority; a plain host is a
  plain name with an optional port; a plain path is empty or starts with a slash and needs no
  encoding.
\<close>

definition plain_name :: "string \<Rightarrow> bool" where
  "plain_name s = list_all unreserved s"

definition plain_host :: "string \<Rightarrow> bool" where
  "plain_host h =
     (takeWhile (\<lambda>c. c \<noteq> CHR '':'') h \<noteq> [] \<and> plain_name (takeWhile (\<lambda>c. c \<noteq> CHR '':'') h) \<and>
      validOptionalPort (dropWhile (\<lambda>c. c \<noteq> CHR '':'') h))"

definition plain_path :: "string \<Rightarrow> bool" where
  "plain_path p = ((p \<noteq> [] \<longrightarrow> hd p = CHR ''/'') \<and> list_all (\<lambda>c. \<not> shouldEscape c EncPath) p)"

lemma shouldEscape_percent [simp]: "shouldEscape (CHR ''%'') mode"
  by (cases mode) (simp_all add: shouldEscape_def unreserved_def byte_class_defs is_alnum_def byte_val_def)

lemma unescape_safe: "list_all (\<lambda>c. \<not> shouldEscape c mode) s \<Longrightarrow> unescape mode s = Inr s"
  by (induction s) (auto simp: shouldEscape_percent)

lemma escape_safe: "list_all (\<lambda>c. \<not> shouldEscape c mode) s \<Longrightarrow> escape mode s = s"
  by (induction s) auto

lemma alnum_visible: "is_alnum c \<Longrightarrow> visible c"
  by (auto simp: is_alnum_def visible_def byte_class_defs)

lemma not_alnum [simp]:
  "\<not> is_alnum (CHR ''?'')" "\<not> is_alnum (CHR ''#'')" "\<not> is_alnum (CHR ''%'')"
  "\<not> is_alnum (CHR '':'')" "\<not> is_alnum (CHR ''/'')" "\<not> is_alnum (CHR ''@'')"
  "\<not> is_alnum (CHR ''['')" "\<not> is_alnum (CHR '']'')"
  by (simp_all add: is_alnum_def byte_class_defs byte_val_def)

lemma visible_punct [simp]:
  "visible (CHR ''-'')" "visible (CHR ''.'')" "visible (CHR ''_'')" "visible (CHR ''~'')"
  "visible (CHR '':'')" "visible (CHR ''@'')" "visible (CHR ''/'')"
  by (simp_all add: visible_def byte_val_def)

lemma visible_rtsp [simp]: "list_all visible ''rtsp://''"
  by (simp add: visible_def byte_val_def)

lemma visible_noctl:
  "list_all visible s \<Longrightarrow> \<not> list_ex (\<lambda>c. byte_val c < 32 \<or> byte_val c = 127) s"
  by (induction s) (auto simp: visible_def)

lemma safe_path_cases:
  assumes "\<not> shouldEscape c EncPath"
  shows "is_alnum c \<or> c \<in> set ''-_.~$&+,/:;=@''"
proof (rule ccontr)
  assume "\<not> ?thesis"
  then have "shouldEscape c EncPath" by (simp add: shouldEscape_def unreserved_def)
  with assms show False by simp
qed

lemma safe_path_byte:
  assumes "\<not> shouldEscape c EncPath"
  shows "visible c \<and> c \<noteq> CHR ''?'' \<and> c \<noteq> CHR ''#'' \<and> c \<noteq> CHR ''%''"
proof -
  from safe_path_cases [OF assms] show ?thesis
  proof
    assume "is_alnum c"
    then show ?thesis using not_alnum alnum_visible by blast
  next
    assume "c \<in> set ''-_.~$&+,/:;=@''"
    then show ?thesis by (auto simp: visible_def byte_val_def)
  qed
qed

text \<open>The delimiters that a plain host or name never contains.\<close>

definition delim :: "byte \<Rightarrow> bool" where
  "delim c = (c \<in> set ''?#%/@[]'')"

lemma delim_lits [simp]:
  "delim (CHR ''?'')" "delim (CHR ''#'')" "delim (CHR ''/'')" "delim (CHR ''@'')" "delim (CHR ''['')"
  "\<not> delim (CHR '':'')"
  by (simp_all add: delim_def)

lemma delim_not_alnum: "delim c \<Longrightarrow> \<not> is_alnum c"
  by (auto simp: delim_def)

lemma plain_name_bytes:
  assumes "plain_name s" "c \<in> set s"
  shows "visible c" "\<not> delim c" "c \<noteq> CHR '':''" "\<not> shouldEscape c mode"
proof -
  from assms have c: "unreserved c" by (auto simp: plain_name_def list_all_iff)
  then show "visible c" by (auto simp: alnum_visible unreserved_def)
  from c show "\<not> delim c" using delim_not_alnum [of c] by (auto simp: unreserved_def delim_def)
  from c show "c \<noteq> CHR '':''" by (auto simp: unreserved_def)
  from c show "\<not> shouldEscape c mode" by (simp add: shouldEscape_def)
qed

lemma port_bytes:
  assumes "validOptionalPort p" "c \<in> set p"
  shows "visible c" "\<not> delim c" "\<not> shouldEscape c EncHost"
proof -
  from assms have c: "is_digit c \<or> c = CHR '':''"
    by (cases p) (auto simp: validOptionalPort_def list_all_iff)
  then show "visible c" by (auto simp: visible_digit)
  from c show "\<not> delim c" using delim_not_alnum [of c] by (auto simp: is_alnum_def)
  from c show "\<not> shouldEscape c EncHost"
    by (elim disjE) (simp_all add: shouldEscape_def unreserved_def is_alnum_def)
qed

lemma plain_host_bytes:
  assumes "plain_host h" "c \<in> set h"
  shows "visible c" "\<not> delim c" "\<not> shouldEscape c EncHost"
proof -
  let ?a = "takeWhile (\<lambda>c. c \<noteq> CHR '':'') h" and ?b = "dropWhile (\<lambda>c. c \<noteq> CHR '':'') h"
  from assms(1) have a: "plain_name ?a" and b: "validOptionalPort ?b"
    by (simp_all add: plain_host_def)
  from assms(2) have "c \<in> set ?a \<or> c \<in> set ?b"
    by (metis Un_iff set_append takeWhile_dropWhile_id)
  then show "visible c" "\<not> delim c" "\<not> shouldEscape c EncHost"
    using plain_name_bytes(1,2,4) [OF a] port_bytes [OF b] by blast+
qed

lemma parseHost_plain: "plain_host h \<Longrightarrow> parseHost h = Inr h"
proof -
  assume h: "plain_host h"
  then have "CHR ''['' \<notin> set h" using plain_host_bytes(2) [OF h, of "CHR ''[''"] by simp blast
  then have "last_cut (CHR ''['') h = None" by (simp add: last_cut_def)
  moreover have "unescape EncHost h = Inr h"
    using plain_host_bytes(3) [OF h] by (intro unescape_safe) (simp add: list_all_iff)
  ultimately show ?thesis
    using h by (simp add: parseHost_def plain_host_def)
qed

lemma plain_host_no_at: "plain_host h \<Longrightarrow> CHR ''@'' \<notin> set h"
  using plain_host_bytes(2) [of h "CHR ''@''"] by auto

lemma parseAuthority_plain: "plain_host h \<Longrightarrow> parseAuthority h = Inr (None, h)"
  by (simp add: parseAuthority_def last_cut_def parseHost_plain plain_host_no_at)

lemma last_cut_append: "c \<notin> set t \<Longrightarrow> last_cut c (s @ c # t) = Some (s, t)"
  using takeWhile_sep [of c "rev t" "rev s"] dropWhile_sep [of c "rev t" "rev s"]
  by (simp add: last_cut_def)

lemma parseAuthority_user:
  assumes u: "plain_name u" and p: "plain_name p" and h: "plain_host h"
  shows "parseAuthority (u @ '':'' @ p @ ''@'' @ h)
       = Inr (Some \<lparr>ui_username = u, ui_password = Some p\<rparr>, h)"
proof -
  have cut: "last_cut (CHR ''@'') (u @ CHR '':'' # p @ CHR ''@'' # h) = Some (u @ CHR '':'' # p, h)"
    using last_cut_append [OF plain_host_no_at [OF h], of "u @ CHR '':'' # p"] by simp
  have "validUserinfo (u @ CHR '':'' # p)"
    using u p by (auto simp: validUserinfo_def plain_name_def list_all_iff unreserved_def)
  moreover have "CHR '':'' \<notin> set u" using plain_name_bytes(3) [OF u] by blast
  moreover have "unescape EncUserPassword u = Inr u" "unescape EncUserPassword p = Inr p"
    using plain_name_bytes(4) [OF u] plain_name_bytes(4) [OF p]
    by (simp_all add: unescape_safe list_all_iff)
  ultimately show ?thesis
    using h by (simp add: parseAuthority_def cut parseHost_plain)
qed

lemma setPath_plain:
  "plain_path p \<Longrightarrow> RawPath u = [] \<Longrightarrow> setPath p u = Inr (u\<lparr>Path := p\<rparr>)"
  by (simp add: setPath_def plain_path_def unescape_safe escape_safe)

lemma cutQuery_none:
  assumes "CHR ''?'' \<notin> set rest" "RawQuery u = []"
  shows "cutQuery rest u = (rest, u)"
proof -
  have "rest \<noteq> [] \<Longrightarrow> last rest \<noteq> CHR ''?''" using assms(1) last_in_set by metis
  then show ?thesis
    using assms by (cases u) (auto simp: cutQuery_def)
qed

lemma url_parse_authority:
  assumes a: "\<And>c. c \<in> set a \<Longrightarrow> visible c \<and> c \<notin> {CHR ''?'', CHR ''#'', CHR ''/''}"
    and p: "plain_path p" and auth: "parseAuthority a = Inr (user, host)"
  shows "url_parse (''rtsp://'' @ a @ p) = Inr ((rtsp_url host p)\<lparr>User := user\<rparr>)"
proof -
  let ?s = "a @ p"
  have vis: "visible c \<and> c \<noteq> CHR ''?'' \<and> c \<noteq> CHR ''#''" if "c \<in> set ?s" for c
    using that a [of c] p safe_path_byte [of c] by (auto simp: plain_path_def list_all_iff)
  then have n: "CHR ''#'' \<notin> set ?s" "CHR ''?'' \<notin> set ?s" by blast+
  then have nofrag: "CHR ''#'' \<notin> set (''rtsp://'' @ ?s)" and noq: "CHR ''?'' \<notin> set (''//'' @ ?s)"
    by simp_all
  have "list_all visible ?s" using vis by (auto simp: list_all_iff)
  then have noctl: "\<not> list_ex (\<lambda>c. byte_val c < 32 \<or> byte_val c = 127) (''rtsp://'' @ ?s)"
    by (intro visible_noctl) (simp only: list_all_append visible_rtsp)
  have sch: "getScheme True (''rtsp://'' @ ?s) = Some (Inr (''rtsp'', ''//'' @ ?s))"
    by (simp add: is_lower_def is_upper_def is_digit_def byte_val_def)
  have low: "map lower ''rtsp'' = ''rtsp''" by code_simp
  let ?u = "url_zero\<lparr>Scheme := ''rtsp''\<rparr>"
  have q: "cutQuery (''//'' @ ?s) ?u = (''//'' @ ?s, ?u)"
    by (rule cutQuery_none [OF noq]) (simp add: url_zero_def)
  have slash: "takeWhile (\<lambda>c. c \<noteq> CHR ''/'') ?s = a \<and> dropWhile (\<lambda>c. c \<noteq> CHR ''/'') ?s = p"
  proof (cases p)
    case Nil
    moreover have "CHR ''/'' \<notin> set a" using a by blast
    ultimately show ?thesis by simp
  next
    case (Cons x p')
    with p have "x = CHR ''/''" by (simp add: plain_path_def)
    moreover have "CHR ''/'' \<notin> set a" using a by blast
    ultimately show ?thesis using Cons by simp
  qed
  have "parseHierarchy (''//'' @ ?s) ?u = Inr ((rtsp_url host p)\<lparr>User := user\<rparr>)"
    using p auth slash
    by (simp add: parseHierarchy_def setPath_plain rtsp_url_def url_zero_def)
  then have "parseNoFrag (''rtsp://'' @ ?s) = Inr ((rtsp_url host p)\<lparr>User := user\<rparr>)"
    using noctl sch low q unfolding parseNoFrag_def by simp
  then show ?thesis
    unfolding url_parse_def takeWhile_none [OF nofrag] dropWhile_none [OF nofrag] by simp
qed

lemma plain_host_auth:
  "plain_host h \<Longrightarrow> c \<in> set h \<Longrightarrow> visible c \<and> c \<notin> {CHR ''?'', CHR ''#'', CHR ''/''}"
  using plain_host_bytes [of h c] by auto

lemma plain_name_auth:
  "plain_name h \<Longrightarrow> c \<in> set h \<Longrightarrow> visible c \<and> c \<notin> {CHR ''?'', CHR ''#'', CHR ''/''}"
  using plain_name_bytes [of h c] by auto

lemma url_parse_plain:
  assumes "plain_host h" "plain_path p"
  shows "url_parse (''rtsp://'' @ h @ p) = Inr (rtsp_url h p)"
  using url_parse_authority [OF plain_host_auth [OF assms(1)] assms(2) parseAuthority_plain [OF assms(1)]]
  by (simp add: rtsp_url_def url_zero_def)

lemma url_parse_user:
  assumes u: "plain_name u" and pw: "plain_name pw" and h: "plain_host h" and p: "plain_path p"
  shows "url_parse (''rtsp://'' @ u @ '':'' @ pw @ ''@'' @ h @ p)
       = Inr ((rtsp_url h p)\<lparr>User := Some \<lparr>ui_username = u, ui_password = Some pw\<rparr>\<rparr>)"
proof -
  let ?a = "u @ '':'' @ pw @ ''@'' @ h"
  have "visible c \<and> c \<notin> {CHR ''?'', CHR ''#'', CHR ''/''}" if "c \<in> set ?a" for c
  proof -
    from that consider "c \<in> set u" | "c \<in> set pw" | "c \<in> set h" | "c = CHR '':''" | "c = CHR ''@''"
      by auto
    then show ?thesis
      using plain_name_auth [OF u, of c] plain_name_auth [OF pw, of c] plain_host_auth [OF h, of c]
      by cases simp_all
  qed
  from url_parse_authority [OF this p parseAuthority_user [OF u pw h]] show ?thesis by simp
qed

lemma url_string_plain:
  assumes "plain_host h" "plain_path p"
  shows "url_string (rtsp_url h p) = ''rtsp://'' @ h @ p"
proof -
  have "escape EncHost h = h"
    using plain_host_bytes(3) [OF assms(1)] by (intro escape_safe) (auto simp: list_all_iff)
  moreover have "escape EncPath p = p" using assms(2) by (simp add: plain_path_def escape_safe)
  moreover have "h \<noteq> []" using assms(1) by (auto simp: plain_host_def)
  moreover have "p \<noteq> ''*''" using assms(2) by (auto simp: plain_path_def)
  ultimately show ?thesis
    using assms(2)
    by (auto simp: url_string_def url_authority_def escapedPath_def rtsp_url_def url_zero_def
        Let_def plain_path_def)
qed

end
