(* ===== verification/Rtsp_Request.thy ===== *)
theory Rtsp_Request
  imports Net_Url
begin

text \<open>
  The \<open>Request\<close> struct of \<open>request.go\<close> and its operations: \<open>NewRequest\<close>,
  \<open>NewRequestFromBuffer\<close>, \<open>ParseCommand\<close>, \<open>ParseRequest\<close>, \<open>GetURL\<close> and \<open>String\<close>. A nil URL
  pointer is \<open>None\<close>; the operations that dereference it return \<open>None\<close> there (a panic). The
  order in which \<open>String\<close> visits the header map is its second argument.
\<close>

section \<open>Definitions\<close>

record request =
  rq_Method :: string
  rq_RawURL :: string
  rq_URL :: "url option"
  rq_ProtocolVersion :: string
  rq_Headers :: headers
  rq_Body :: string
  rq_Attempts :: int
  rq_Subscriptions :: "nat list"

definition NewRequest :: "string \<Rightarrow> url option \<Rightarrow> string list \<Rightarrow> request" where
  "NewRequest method u args =
     \<lparr>rq_Method = method, rq_RawURL = [], rq_URL = u,
      rq_ProtocolVersion = (if args \<noteq> [] \<and> hd args \<noteq> [] then hd args else ''RTSP/1.0''),
      rq_Headers = [], rq_Body = [], rq_Attempts = 0, rq_Subscriptions = []\<rparr>"

definition request_zero :: request where
  "request_zero =
     \<lparr>rq_Method = [], rq_RawURL = [], rq_URL = None, rq_ProtocolVersion = [],
      rq_Headers = [], rq_Body = [], rq_Attempts = 0, rq_Subscriptions = []\<rparr>"

definition is_blank :: "byte \<Rightarrow> bool" where
  "is_blank c = (c = SP \<or> c = TAB)"

text \<open>
  One of the token loops: the bytes up to the next blank, each converted with \<open>string(b)\<close>,
  and what follows the blank.
\<close>

definition token :: "string \<Rightarrow> string \<times> string" where
  "token buffer =
     (concat (map string_of_byte (takeWhile (\<lambda>c. \<not> is_blank c) buffer)),
      tl (dropWhile (\<lambda>c. \<not> is_blank c) buffer))"

text \<open>
  The regular expression of \<open>ParseCommand\<close>, \<open>^rtsp://[^:/]+(:?[:]\d+)?/(rtsp)/(.*)\<close>, with the
  replacement \<open>$2://$3\<close>: an optional port after the proxy's host, then the path prefix
  \<open>/rtsp/\<close>.
\<close>

definition skipPort :: "string \<Rightarrow> string option" where
  "skipPort r =
     (if prefix '':'' r
      then let ds = (if prefix ''::'' r then drop 2 r else drop 1 r)
           in if takeWhile is_digit ds = [] then None else Some (dropWhile is_digit ds)
      else Some r)"

definition stripProxyURL :: "string \<Rightarrow> string" where
  "stripProxyURL raw =
     (let t = drop 7 raw;
          host = takeWhile (\<lambda>c. c \<noteq> CHR '':'' \<and> c \<noteq> CHR ''/'') t
      in if prefix ''rtsp://'' raw \<and> host \<noteq> [] then
           (case skipPort (dropWhile (\<lambda>c. c \<noteq> CHR '':'' \<and> c \<noteq> CHR ''/'') t) of
              Some r \<Rightarrow> if prefix ''/rtsp/'' r then ''rtsp://'' @ drop 6 r else raw
            | None \<Rightarrow> raw)
         else raw)"

definition ParseCommand :: "string \<Rightarrow> request \<Rightarrow> go_error + request" where
  "ParseCommand buffer request =
     (let (method, r1) = token buffer;
          (rawURL, r2) = token r1;
          (version, _) = token r2
      in if method = [] \<or> rawURL = [] \<or> version = [] then Inl ''Method parse error''
         else (case url_parse (stripProxyURL rawURL) of
                 Inl e \<Rightarrow> Inl e
               | Inr u \<Rightarrow> Inr (request\<lparr>rq_Method := method, rq_RawURL := rawURL,
                                      rq_ProtocolVersion := version, rq_URL := Some u\<rparr>)))"

definition ParseRequest :: "string \<Rightarrow> request \<Rightarrow> go_error + request" where
  "ParseRequest buffer request =
     (let (rest, line) = sharedLineSplit buffer
      in case ParseCommand line request of
           Inl e \<Rightarrow> Inl e
         | Inr r \<Rightarrow>
             (case parseHeaders rest (rq_Headers r) of
                Inl e \<Rightarrow> Inl e
              | Inr (hs, _) \<Rightarrow> Inr (r\<lparr>rq_Headers := hs\<rparr>)))"

definition NewRequestFromBuffer :: "string \<Rightarrow> go_error + request" where
  "NewRequestFromBuffer buffer =
     (if buffer \<noteq> [] then ParseRequest buffer request_zero else Inr request_zero)"

text \<open>\<open>GetURL\<close> drops the credentials and the default port; on a nil URL it panics.\<close>

definition GetURL :: "request \<Rightarrow> url option" where
  "GetURL request =
     map_option
       (\<lambda>u. let host = split (CHR '':'') (Host u)
            in u\<lparr>User := None,
                 Host := (if 1 < length host \<and> host ! 1 = ''554'' then host ! 0 else Host u)\<rparr>)
       (rq_URL request)"

definition requestString :: "request \<Rightarrow> (string \<times> string) list \<Rightarrow> string option" where
  "requestString request entries =
     map_option
       (\<lambda>u. rq_Method request @ '' '' @ url_string u @ '' '' @ rq_ProtocolVersion request @ CRLF @
            concat (map headerLine entries) @ CRLF)
       (GetURL request)"

section \<open>Tokens\<close>

text \<open>A clean token: visible ASCII bytes, at least one.\<close>

definition clean_token :: "string \<Rightarrow> bool" where
  "clean_token t = (t \<noteq> [] \<and> list_all visible t)"

lemma visible_not_blank: "visible c \<Longrightarrow> \<not> is_blank c"
  by (auto simp: visible_def is_blank_def byte_val_def)

lemma is_blank_SP [simp]: "is_blank SP"
  by (simp add: is_blank_def)

lemma takeWhile_blank: "list_all visible t \<Longrightarrow> takeWhile (\<lambda>c. \<not> is_blank c) (t @ SP # r) = t"
  by (induction t) (auto simp: visible_not_blank)

lemma dropWhile_blank: "list_all visible t \<Longrightarrow> dropWhile (\<lambda>c. \<not> is_blank c) (t @ SP # r) = SP # r"
  by (induction t) (auto simp: visible_not_blank)

lemma takeWhile_all: "list_all visible t \<Longrightarrow> takeWhile (\<lambda>c. \<not> is_blank c) t = t"
  by (induction t) (auto simp: visible_not_blank)

lemma list_all_visible_ascii: "list_all visible t \<Longrightarrow> list_all is_ascii t"
  by (auto simp: list_all_iff visible_ascii)

lemma token_space: "list_all visible t \<Longrightarrow> token (t @ SP # r) = (t, r)"
  by (simp add: token_def takeWhile_blank dropWhile_blank list_all_visible_ascii)

lemma token_end: "list_all visible t \<Longrightarrow> fst (token t) = t"
  by (simp add: token_def takeWhile_all list_all_visible_ascii)

lemma ParseCommand_line:
  assumes "clean_token m" "clean_token raw" "clean_token v" "url_parse (stripProxyURL raw) = Inr u"
  shows "ParseCommand (m @ '' '' @ raw @ '' '' @ v) r
       = Inr (r\<lparr>rq_Method := m, rq_RawURL := raw, rq_ProtocolVersion := v, rq_URL := Some u\<rparr>)"
proof -
  have "token (m @ '' '' @ raw @ '' '' @ v) = (m, raw @ '' '' @ v)"
    "token (raw @ '' '' @ v) = (raw, v)" "fst (token v) = v"
    using assms token_space [of m "raw @ '' '' @ v"] token_space [of raw v]
    by (simp_all add: clean_token_def token_end)
  with assms show ?thesis
    by (auto simp: ParseCommand_def clean_token_def split: prod.splits)
qed

section \<open>Proxy URLs\<close>

lemma takeWhile_two:
  "c \<notin> set s \<Longrightarrow> d \<notin> set s \<Longrightarrow> x = c \<or> x = d \<Longrightarrow>
     takeWhile (\<lambda>y. y \<noteq> c \<and> y \<noteq> d) (s @ x # t) = s \<and> dropWhile (\<lambda>y. y \<noteq> c \<and> y \<noteq> d) (s @ x # t) = x # t"
  by (induction s) auto

lemma digits_sep:
  "list_all is_digit ds \<Longrightarrow> \<not> is_digit x \<Longrightarrow>
     takeWhile is_digit (ds @ x # t) = ds \<and> dropWhile is_digit (ds @ x # t) = x # t"
  by (induction ds) auto

lemma skipPort_path:
  assumes "port = [] \<or> (\<exists>ds. port = '':'' @ ds \<and> ds \<noteq> [] \<and> list_all is_digit ds)"
  shows "skipPort (port @ CHR ''/'' # t) = Some (CHR ''/'' # t)"
proof (cases "port = []")
  case True
  then show ?thesis by (simp add: skipPort_def)
next
  case False
  with assms obtain ds where ds: "port = '':'' @ ds" "ds \<noteq> []" "list_all is_digit ds" by auto
  have "\<not> is_digit (CHR ''/'')" "\<not> is_digit (CHR '':'')"
    by (simp_all add: is_digit_def byte_val_def)
  with ds digits_sep [of ds "CHR ''/''" t] show ?thesis
    by (cases ds) (auto simp: skipPort_def)
qed

text \<open>A proxy URL \<open>rtsp://proxy[:port]/rtsp/target\<close> is rewritten to \<open>rtsp://target\<close>, whatever
  the target is: the proxy's own authority and the path prefix are cut, nothing else.\<close>

lemma stripProxyURL_target:
  assumes host: "host \<noteq> []" "CHR '':'' \<notin> set host" "CHR ''/'' \<notin> set host"
    and port: "port = [] \<or> (\<exists>ds. port = '':'' @ ds \<and> ds \<noteq> [] \<and> list_all is_digit ds)"
  shows "stripProxyURL (''rtsp://'' @ host @ port @ ''/rtsp/'' @ target) = ''rtsp://'' @ target"
proof -
  obtain x y where xy: "port @ ''/rtsp/'' @ target = x # y" "x = CHR '':'' \<or> x = CHR ''/''"
    using port by (cases port) auto
  have "skipPort (x # y) = Some (''/rtsp/'' @ target)"
    using skipPort_path [OF port, of "''rtsp/'' @ target"] xy(1) by simp
  then show ?thesis
    using takeWhile_two [OF host(2,3) xy(2), of y] host(1) xy(1) by (simp add: stripProxyURL_def)
qed

section \<open>Whole requests\<close>

definition requestText :: "string \<Rightarrow> string \<Rightarrow> string \<Rightarrow> (string \<times> string) list \<Rightarrow> string" where
  "requestText method rawURL version entries =
     method @ '' '' @ rawURL @ '' '' @ version @ CRLF @ concat (map headerLine entries) @ CRLF"

lemma visible_no_eol: "list_all visible s \<Longrightarrow> no_eol s"
  by (auto simp: no_eol_def list_all_iff visible_def byte_val_def)

lemma no_eol_append [simp]: "no_eol (s @ t) \<longleftrightarrow> no_eol s \<and> no_eol t"
  by (auto simp: no_eol_def)

lemma no_eol_Cons [simp]: "no_eol (c # s) \<longleftrightarrow> c \<noteq> CR \<and> c \<noteq> LF \<and> no_eol s" "no_eol []"
  by (auto simp: no_eol_def)

lemma ParseRequest_text:
  assumes tok: "clean_token m" "clean_token raw" "clean_token v"
    and u: "url_parse (stripProxyURL raw) = Inr u"
    and es: "list_all header_ok es" "gomap_wf es"
  shows "NewRequestFromBuffer (requestText m raw v es @ rest)
       = Inr (request_zero\<lparr>rq_Method := m, rq_RawURL := raw, rq_ProtocolVersion := v,
                rq_URL := Some u, rq_Headers := es\<rparr>)"
proof -
  let ?line = "m @ '' '' @ raw @ '' '' @ v"
  have "no_eol ?line"
    using tok by (simp add: clean_token_def visible_no_eol)
  then have "sharedLineSplit (requestText m raw v es @ rest) = (concat (map headerLine es) @ CRLF @ rest, ?line)"
    using sharedLineSplit_crlf [of ?line "concat (map headerLine es) @ CRLF @ rest"]
    by (simp add: requestText_def)
  moreover have "parseHeaders (concat (map headerLine es) @ CRLF @ rest) [] = Inr (es, rest)"
    using es fold_mput_new [of "[]" es] by (simp add: parseHeaders_print del: append.simps)
  moreover have "requestText m raw v es @ rest \<noteq> []"
    using tok by (simp add: requestText_def)
  ultimately show ?thesis
    using ParseCommand_line [OF tok u, of request_zero]
    by (simp add: NewRequestFromBuffer_def ParseRequest_def request_zero_def)
qed

lemma plain_path_visible: "plain_path p \<Longrightarrow> list_all visible p"
  using safe_path_byte by (auto simp: plain_path_def list_all_iff)

lemma plain_host_visible: "plain_host h \<Longrightarrow> list_all visible h"
  using plain_host_bytes(1) by (auto simp: list_all_iff)

lemma plain_name_visible: "plain_name h \<Longrightarrow> list_all visible h"
  using plain_name_bytes(1) by (auto simp: list_all_iff)

lemma clean_rtsp: "list_all visible s \<Longrightarrow> clean_token (''rtsp://'' @ s)"
  using visible_rtsp by (simp only: clean_token_def list_all_append) simp

lemma proxy_request_parsed:
  assumes tok: "clean_token m" "clean_token v"
    and proxy: "plain_name proxy" "proxy \<noteq> []" "list_all is_digit port" "port \<noteq> []"
    and cam: "plain_name user" "plain_name pw" "plain_host h" "plain_path p"
    and es: "list_all header_ok es" "gomap_wf es"
    and raw: "raw = ''rtsp://'' @ proxy @ '':'' @ port @ ''/rtsp/'' @ user @ '':'' @ pw @ ''@'' @ h @ p"
  shows "NewRequestFromBuffer (requestText m raw v es @ rest) =
    Inr (request_zero\<lparr>rq_Method := m, rq_RawURL := raw, rq_ProtocolVersion := v,
      rq_URL := Some ((rtsp_url h p)\<lparr>User := Some \<lparr>ui_username = user, ui_password = Some pw\<rparr>\<rparr>), rq_Headers := es\<rparr>)"
proof -
  let ?t = "user @ '':'' @ pw @ ''@'' @ h @ p"
  have raw': "raw = ''rtsp://'' @ proxy @ ('':'' @ port) @ ''/rtsp/'' @ ?t" by (simp add: raw)
  have "CHR '':'' \<notin> set proxy" "CHR ''/'' \<notin> set proxy"
    using plain_name_bytes(3) [OF proxy(1)] plain_name_bytes(2) [OF proxy(1), of "CHR ''/''"] by auto
  then have strip: "stripProxyURL raw = ''rtsp://'' @ ?t"
    unfolding raw' using proxy by (intro stripProxyURL_target) auto
  have "list_all visible port" using proxy(3) by (auto simp: list_all_iff visible_digit)
  moreover have "list_all visible ''/rtsp/''" by (simp add: visible_def byte_val_def)
  ultimately have "list_all visible (proxy @ ('':'' @ port) @ ''/rtsp/'' @ ?t)"
    using proxy(1) cam
    by (simp only: list_all_append plain_name_visible plain_host_visible plain_path_visible) simp
  then have "clean_token raw" unfolding raw' by (rule clean_rtsp)
  with ParseRequest_text [OF tok(1) _ tok(2) _ es, of raw _ rest] strip url_parse_user [OF cam] show ?thesis by simp
qed

text \<open>A client request for \<open>rtsp://proxy[:port]/rtsp/user:password@host/path\<close> is parsed into the
  camera's URL: scheme, host, path and credentials are those of the camera, the method, the
  protocol version and all headers are taken over unchanged, whatever follows the empty line.\<close>

theorem proxy_request_resolves_target:
  assumes "clean_token m" "clean_token v"
    and "plain_name proxy" "proxy \<noteq> []" "list_all is_digit port" "port \<noteq> []"
    and "plain_name user" "plain_name pw" "plain_host h" "plain_path p"
    and "list_all header_ok es" "gomap_wf es"
  shows "\<exists>r. NewRequestFromBuffer
               (requestText m (''rtsp://'' @ proxy @ '':'' @ port @ ''/rtsp/'' @ user @ '':'' @ pw @ ''@'' @ h @ p) v es
                @ rest) = Inr r
           \<and> rq_Method r = m \<and> rq_ProtocolVersion r = v \<and> rq_Headers r = es
           \<and> rq_URL r = Some ((rtsp_url h p)\<lparr>User := Some \<lparr>ui_username = user, ui_password = Some pw\<rparr>\<rparr>)"
  using proxy_request_parsed [OF assms refl, of rest] by simp

theorem proxy_request_resolves_target_witness:
  "\<exists>r. NewRequestFromBuffer
         (requestText ''DESCRIBE'' ''rtsp://10.0.0.1:8554/rtsp/admin:pw@cam:554/ch1'' ''RTSP/1.0''
            [(''Cseq'', ''2'')] @ []) = Inr r
     \<and> rq_URL r = Some ((rtsp_url ''cam:554'' ''/ch1'')
         \<lparr>User := Some \<lparr>ui_username = ''admin'', ui_password = Some ''pw''\<rparr>\<rparr>)"
proof -
  have "clean_token ''DESCRIBE''" "clean_token ''RTSP/1.0''" "plain_name ''10.0.0.1''"
    "list_all is_digit ''8554''" "plain_name ''admin''" "plain_name ''pw''" "plain_host ''cam:554''"
    "plain_path ''/ch1''" "list_all header_ok [(''Cseq'', ''2'')]"
    by code_simp+
  from proxy_request_resolves_target [OF this(1-3) _ this(4) _ this(5-9), of "[]"]
  show ?thesis by auto
qed

text \<open>A URL without the proxy prefix passes through.\<close>

lemma stripProxyURL_other:
  assumes h: "plain_host h" and p: "plain_path p" "\<not> prefix ''/rtsp/'' p"
  shows "stripProxyURL (''rtsp://'' @ h @ p) = ''rtsp://'' @ h @ p"
proof -
  let ?q = "\<lambda>c. c \<noteq> CHR '':'' \<and> c \<noteq> CHR ''/''"
  have slash: "CHR ''/'' \<notin> set h" using plain_host_bytes(2) [OF h, of "CHR ''/''"] by auto
  let ?n = "takeWhile (\<lambda>c. c \<noteq> CHR '':'') h" and ?o = "dropWhile (\<lambda>c. c \<noteq> CHR '':'') h"
  have n: "\<forall>c\<in>set ?n. ?q c"
    using slash by (auto dest!: set_takeWhileD)
  have "h @ p = ?n @ ?o @ p" by (metis append_assoc takeWhile_dropWhile_id)
  then have "dropWhile ?q (h @ p) = dropWhile ?q (?n @ ?o @ p)" by (rule arg_cong)
  also have "\<dots> = dropWhile ?q (?o @ p)" by (rule dropWhile_append2) (use n in blast)
  finally have drop: "dropWhile ?q (h @ p) = dropWhile ?q (?o @ p)" .
  have po: "validOptionalPort ?o" using h by (simp add: plain_host_def)
  have "skipPort (dropWhile ?q (h @ p)) = Some p \<or> skipPort (dropWhile ?q (h @ p)) = None"
  proof (cases ?o)
    case Nil
    have "dropWhile ?q p = p" using p(1) by (cases p) (auto simp: plain_path_def)
    then have e: "dropWhile ?q (h @ p) = p" unfolding drop Nil by simp
    have "skipPort p = Some p" using p(1) by (cases p) (auto simp: skipPort_def plain_path_def)
    then show ?thesis unfolding e by simp
  next
    case (Cons x ds)
    with po have x: "x = CHR '':''" "list_all is_digit ds" by (auto simp: validOptionalPort_def)
    have nd: "\<not> is_digit (CHR ''/'')" "\<not> is_digit (CHR '':'')" by (simp_all add: is_digit_def byte_val_def)
    have "dropWhile is_digit (ds @ p) = p"
      using x(2) p(1) nd by (cases p; induction ds) (auto simp: plain_path_def)
    moreover have "\<not> prefix ''::'' (x # ds @ p)"
      using x p(1) nd by (cases ds; cases p) (auto simp: plain_path_def)
    ultimately show ?thesis unfolding drop Cons using x by (simp add: skipPort_def Let_def)
  qed
  with p(2) show ?thesis by (auto simp: stripProxyURL_def Let_def)
qed

text \<open>The URL a request is sent with: no credentials, no default port.\<close>

definition sendHost :: "string \<Rightarrow> string" where
  "sendHost h =
     (let host = split (CHR '':'') h
      in if 1 < length host \<and> host ! 1 = ''554'' then host ! 0 else h)"

lemma GetURL_rtsp:
  "rq_URL r = Some ((rtsp_url h p)\<lparr>User := ui\<rparr>) \<Longrightarrow> GetURL r = Some (rtsp_url (sendHost h) p)"
  by (simp add: GetURL_def sendHost_def rtsp_url_def url_zero_def Let_def)

lemma plain_host_sendHost: "plain_host h \<Longrightarrow> plain_host (sendHost h)"
proof -
  assume h: "plain_host h"
  let ?n = "takeWhile (\<lambda>c. c \<noteq> CHR '':'') h" and ?o = "dropWhile (\<lambda>c. c \<noteq> CHR '':'') h"
  have n: "CHR '':'' \<notin> set ?n" by (auto dest: set_takeWhileD)
  show ?thesis
  proof (cases ?o)
    case Nil
    then have "CHR '':'' \<notin> set h" by (auto simp: dropWhile_eq_Nil_conv)
    with h show ?thesis by (simp add: sendHost_def)
  next
    case (Cons x ds)
    with h have "x = CHR '':''" by (auto simp: plain_host_def validOptionalPort_def)
    with Cons have "h = ?n @ CHR '':'' # ds" by (metis takeWhile_dropWhile_id)
    then have "split (CHR '':'') h = ?n # split (CHR '':'') ds" using n split_append by metis
    moreover have "plain_host ?n"
      using h n by (simp add: plain_host_def validOptionalPort_def)
    ultimately show ?thesis using h by (simp add: sendHost_def)
  qed
qed



end
