(* ===== verification/Rtsp_Response.thy ===== *)
theory Rtsp_Response
  imports Rtsp_Request
begin

text \<open>
  The \<open>Response\<close> struct of \<open>response.go\<close>: \<open>NewResponse\<close>, \<open>NewResponseFromBuffer\<close>,
  \<open>ParseStatus\<close>, \<open>ParseResponse\<close> and \<open>String\<close>. The round trip shows that a response printed by
  the proxy is read back unchanged and that bytes after the announced body are not taken for
  a part of it.
\<close>

section \<open>Definitions\<close>

record response =
  rs_Status :: string
  rs_ProtocolVersion :: string
  rs_Code :: int
  rs_Headers :: headers
  rs_Body :: string

definition NewResponse :: "int \<Rightarrow> string list \<Rightarrow> response" where
  "NewResponse code args =
     \<lparr>rs_Status = (if 0 < length args then args ! 0 else ''OK''),
      rs_ProtocolVersion = (if 1 < length args then args ! 1 else ''RTSP/1.0''),
      rs_Code = code, rs_Headers = [], rs_Body = []\<rparr>"

text \<open>
  \<open>ParseStatus\<close>: version, code and status. A code that is not three bytes long leaves the code
  at 0, which is an error at the end.
\<close>

definition ParseStatus :: "string \<Rightarrow> response \<Rightarrow> go_error + response" where
  "ParseStatus buffer response =
     (let (version, r1) = token buffer;
          (code, r2) = token r1;
          (n, err) = (if length code = 3 then atoi code else (0, None));
          status = concat (map string_of_byte (takeWhile (\<lambda>c. c \<noteq> CR \<and> c \<noteq> LF) r2))
      in if err \<noteq> None then Inl ''strconv.Atoi: invalid syntax''
         else if status = [] \<or> n = 0 \<or> version = [] then Inl ''Status parse error''
         else Inr (response\<lparr>rs_ProtocolVersion := version, rs_Code := n, rs_Status := status\<rparr>))"

definition takeBody :: "headers \<Rightarrow> string \<Rightarrow> response \<Rightarrow> response" where
  "takeBody hs rest response =
     (let contentLengthRaw = headerGet hs ''Content-Length'';
          contentLength = atoi_val contentLengthRaw
      in if contentLengthRaw \<noteq> [] \<and> 0 < contentLength
         then response\<lparr>rs_Body := if contentLength \<le> int (length rest)
                                    then take (nat contentLength) rest else rest\<rparr>
         else response)"

definition ParseResponse :: "string \<Rightarrow> response \<Rightarrow> go_error + response" where
  "ParseResponse buffer response =
     (let (rest, line) = sharedLineSplit buffer
      in case ParseStatus line response of
           Inl e \<Rightarrow> Inl e
         | Inr r \<Rightarrow>
             (case parseHeaders rest (rs_Headers r) of
                Inl e \<Rightarrow> Inl e
              | Inr (hs, body) \<Rightarrow> Inr (takeBody hs body (r\<lparr>rs_Headers := hs\<rparr>))))"

definition NewResponseFromBuffer :: "string \<Rightarrow> go_error + response" where
  "NewResponseFromBuffer buffer =
     (let response = NewResponse 400 [''Bad request'']
      in if buffer \<noteq> [] then ParseResponse buffer response else Inr response)"

definition responseHead :: "response \<Rightarrow> (string \<times> string) list \<Rightarrow> string" where
  "responseHead response entries =
     rs_ProtocolVersion response @ '' '' @ itoa (rs_Code response) @ '' '' @ rs_Status response @ CRLF @
     concat (map headerLine entries)"

definition responseString :: "response \<Rightarrow> (string \<times> string) list \<Rightarrow> string" where
  "responseString response entries = responseHead response entries @ CRLF @ rs_Body response"

section \<open>Round trip\<close>

text \<open>
  A response that can be sent: a three-digit code, a clean version, a status of ASCII bytes
  without line end, printable headers, and a \<open>Content-Length\<close> that is the length of the body
  (or none and no body).
\<close>

definition clean_status :: "string \<Rightarrow> bool" where
  "clean_status s = (s \<noteq> [] \<and> no_eol s \<and> list_all is_ascii s)"

definition response_ok :: "response \<Rightarrow> bool" where
  "response_ok r =
     (clean_token (rs_ProtocolVersion r) \<and> 100 \<le> rs_Code r \<and> rs_Code r \<le> 999 \<and>
      clean_status (rs_Status r) \<and> list_all header_ok (rs_Headers r) \<and> gomap_wf (rs_Headers r) \<and>
      int (length (rs_Body r)) \<le> maxInt64 \<and>
      (case mget (rs_Headers r) ''Content-Length'' of
         Some v \<Rightarrow> v = itoa (int (length (rs_Body r)))
       | None \<Rightarrow> rs_Body r = []))"

lemma itoa_three:
  assumes "100 \<le> n" "n \<le> 999"
  shows "length (itoa n) = 3"
proof -
  have "\<not> nat n < 10" "\<not> nat n div 10 < 10" "nat n div 10 div 10 < 10"
    using assms by arith+
  with assms show ?thesis
    by (simp add: itoa_def nat_dec.simps [of "nat n"] nat_dec.simps [of "nat n div 10"]
        nat_dec.simps [of "nat n div 10 div 10"])
qed

lemma no_eol_takeWhile: "no_eol s \<Longrightarrow> takeWhile (\<lambda>c. c \<noteq> CR \<and> c \<noteq> LF) s = s"
  by (induction s) auto

lemma ParseStatus_line:
  assumes "clean_token v" "100 \<le> n" "n \<le> 999" "clean_status s"
  shows "ParseStatus (v @ '' '' @ itoa n @ '' '' @ s) r
       = Inr (r\<lparr>rs_ProtocolVersion := v, rs_Code := n, rs_Status := s\<rparr>)"
proof -
  have "token (v @ '' '' @ itoa n @ '' '' @ s) = (v, itoa n @ '' '' @ s)"
    "token (itoa n @ '' '' @ s) = (itoa n, s)"
    using assms token_space [of v "itoa n @ '' '' @ s"] token_space [of "itoa n" s]
    by (simp_all add: clean_token_def itoa_visible)
  with assms show ?thesis
    by (simp add: ParseStatus_def itoa_three atoi_itoa no_eol_takeWhile clean_status_def clean_token_def)
qed

lemma header_ok_canonical:
  "list_all header_ok es \<Longrightarrow> gomap_wf es \<Longrightarrow> canonical_headers es"
  by (auto simp: canonical_headers_def list_all_iff header_ok_def)

lemma canonical_content_length: "canonicalHeaderKey ''Content-Length'' = ''Content-Length''"
  by code_simp

lemma headerGet_content_length:
  "canonical_headers es \<Longrightarrow> headerGet es ''Content-Length'' = mget_str es ''Content-Length''"
  by (subst headerGet_canonical) (simp_all add: canonical_content_length, simp add: visible_def byte_val_def)

lemma NewResponseFromBuffer_string:
  assumes ok: "response_ok r" and es: "list_all header_ok es" "gomap_wf es" "map_of es = map_of (rs_Headers r)"
  shows "NewResponseFromBuffer (responseString r es @ rest) = Inr (r\<lparr>rs_Headers := es\<rparr>)"
proof -
  let ?line = "rs_ProtocolVersion r @ '' '' @ itoa (rs_Code r) @ '' '' @ rs_Status r"
  let ?tail = "concat (map headerLine es) @ CRLF @ rs_Body r @ rest"
  have tok: "clean_token (rs_ProtocolVersion r)" "100 \<le> rs_Code r" "rs_Code r \<le> 999" "clean_status (rs_Status r)"
    using ok by (simp_all add: response_ok_def)
  then have "no_eol ?line"
    by (simp add: clean_token_def clean_status_def visible_no_eol itoa_visible)
  then have split: "sharedLineSplit (responseString r es @ rest) = (?tail, ?line)"
    using sharedLineSplit_crlf [of ?line ?tail] by (simp add: responseString_def responseHead_def)
  have hs: "parseHeaders ?tail [] = Inr (es, rs_Body r @ rest)"
    using parseHeaders_print [OF es(1), of "rs_Body r @ rest" "[]"] fold_mput_new [of "[]" es] es(2) by simp
  have get: "headerGet es ''Content-Length'' = mget_str (rs_Headers r) ''Content-Length''"
    using headerGet_content_length [OF header_ok_canonical [OF es(1,2)]] es(3) by (simp add: mget_str_def)
  have "takeBody es (rs_Body r @ rest) (r\<lparr>rs_Body := [], rs_Headers := es\<rparr>) = r\<lparr>rs_Headers := es\<rparr>"
  proof (cases "mget (rs_Headers r) ''Content-Length''")
    case None
    with ok get show ?thesis by (cases r) (simp add: takeBody_def response_ok_def mget_str_def)
  next
    case (Some v)
    with ok have v: "v = itoa (int (length (rs_Body r)))" "int (length (rs_Body r)) \<le> maxInt64"
      by (auto simp: response_ok_def)
    then have "atoi_val v = int (length (rs_Body r))" by (simp add: atoi_val_def atoi_itoa)
    moreover have "v \<noteq> []" using v by (simp add: itoa_def)
    ultimately show ?thesis
      using Some get by (cases r) (simp add: takeBody_def mget_str_def Let_def)
  qed
  moreover have "ParseStatus ?line (NewResponse 400 [''Bad request''])
      = Inr (r\<lparr>rs_Headers := [], rs_Body := []\<rparr>)"
    unfolding ParseStatus_line [OF tok] by (cases r) (simp add: NewResponse_def)
  moreover have "responseString r es @ rest \<noteq> []"
    by (simp add: responseString_def responseHead_def)
  ultimately show ?thesis
    using split hs by (simp add: NewResponseFromBuffer_def ParseResponse_def)
qed



end
