(* ===== verification/Rtsp_Framing.thy ===== *)
theory Rtsp_Framing
  imports Rtsp_Response
begin

text \<open>
  How the proxy cuts a camera's byte stream into interleaved packets and RTSP messages: the
  framing part of \<open>Stream.readLoop\<close> (\<open>stream.go\<close>), and the header that \<open>Remote.SendBinary\<close>
  (\<open>remote.go\<close>) writes in front of a packet. \<open>drain\<close> is the inner loop; it may run forever, so
  it is a partial function and not returning is \<open>None\<close>. \<open>readFrames\<close> is the outer loop over
  the reads of the connection, without the effect of the frames, which \<open>Rtsp_Stream\<close> adds.
\<close>

section \<open>Definitions\<close>

text \<open>What the read loop hands on: a packet with its channel, or an RTSP message.\<close>

datatype upstream_event = Packet int string | Message string

datatype frame = NeedMore | Frame upstream_event string | FramePanic

abbreviation (input) CRLF2 :: string where "CRLF2 \<equiv> [CR, LF, CR, LF]"

definition pktLen :: "string \<Rightarrow> nat" where
  "pktLen buffer = nat (push_bit 8 (byte_val (buffer ! 2)) OR byte_val (buffer ! 3))"

definition totalMsgLen :: "nat \<Rightarrow> string \<Rightarrow> int" where
  "totalMsgLen eol buffer = wrap64 (int eol + 4 + sharedParseContentLength (take eol buffer))"

text \<open>
  One turn of the inner loop on a non-empty buffer. A negative message length passes the length
  check and panics when the buffer is sliced.
\<close>

definition nextFrame :: "string \<Rightarrow> frame" where
  "nextFrame buffer =
     (if hd buffer = CHR ''$'' then
        (if length buffer < 4 then NeedMore
         else let n = 4 + pktLen buffer
              in if length buffer < n then NeedMore
                 else Frame (Packet (byte_val (buffer ! 1)) (take n buffer)) (drop n buffer))
      else
        (case find_sub CRLF2 buffer of
           None \<Rightarrow> NeedMore
         | Some eol \<Rightarrow>
             (let total = totalMsgLen eol buffer
              in if int (length buffer) < total then NeedMore
                 else if total < 0 then FramePanic
                 else Frame (Message (take (nat total) buffer)) (drop (nat total) buffer))))"

text \<open>The inner loop: the frames found, the bytes left, and whether it panicked.\<close>

partial_function (option) drain :: "string \<Rightarrow> (upstream_event list \<times> string \<times> bool) option" where
  "drain buffer =
     (if buffer = [] then Some ([], [], False)
      else (case nextFrame buffer of
              NeedMore \<Rightarrow> Some ([], buffer, False)
            | FramePanic \<Rightarrow> Some ([], buffer, True)
            | Frame ev rest \<Rightarrow>
                Option.bind (drain rest) (\<lambda>(evs, r, p). Some (ev # evs, r, p))))"

text \<open>
  The outer loop over a connection whose bytes still to come are \<open>pending\<close>: a read takes at
  most the free part of the buffer and at most the bytes that have arrived (\<open>ReadUpTo k\<close>), or
  times out (\<open>ReadNothing\<close>). After draining, a full buffer is cleared. The result is what has been handed on
  and the loop's position when the script of reads ends: blocked in a read, or panicked.
\<close>

datatype read_event = ReadUpTo nat | ReadNothing

datatype loop_end = Reading string string | LoopPanic

definition clearFull :: "nat \<Rightarrow> string \<Rightarrow> string" where
  "clearFull cap rest = (if length rest = cap then [] else rest)"

fun readFrames :: "nat \<Rightarrow> string \<Rightarrow> string \<Rightarrow> read_event list \<Rightarrow> (upstream_event list \<times> loop_end) option"
where
  "readFrames cap buffer pending [] =
     (case drain buffer of
        None \<Rightarrow> None
      | Some (evs, rest, p) \<Rightarrow>
          Some (evs, if p then LoopPanic else Reading (clearFull cap rest) pending))"
| "readFrames cap buffer pending (r # rs) =
     (case drain buffer of
        None \<Rightarrow> None
      | Some (evs, rest, p) \<Rightarrow>
          if p then Some (evs, LoopPanic)
          else let b = clearFull cap rest;
                   n = (case r of ReadUpTo k \<Rightarrow> min k (cap - length b) | ReadNothing \<Rightarrow> 0)
               in (case readFrames cap (b @ take n pending) (drop n pending) rs of
                     None \<Rightarrow> None
                   | Some (evs', e) \<Rightarrow> Some (evs @ evs', e)))"

text \<open>The four header bytes of \<open>SendBinary\<close>, followed by the data.\<close>

definition binaryFrame :: "int \<Rightarrow> string \<Rightarrow> string" where
  "binaryFrame channel data =
     [CHR ''$'', to_byte channel,
      to_byte (drop_bit 8 (int (length data) AND 0xFF00)), to_byte (int (length data) AND 0xFF)] @ data"

section \<open>Well-formed frames\<close>

fun event_bytes :: "upstream_event \<Rightarrow> string" where
  "event_bytes (Packet ch bytes) = bytes"
| "event_bytes (Message m) = m"

text \<open>
  A well-formed packet starts with a dollar sign and its channel and announces its own length;
  a well-formed message does not start with a dollar sign and is as long as its head and its
  content length say.
\<close>

fun event_ok :: "upstream_event \<Rightarrow> bool" where
  "event_ok (Packet ch bytes) =
     (4 \<le> length bytes \<and> hd bytes = CHR ''$'' \<and> byte_val (bytes ! 1) = ch \<and>
      length bytes = 4 + pktLen bytes)"
| "event_ok (Message m) =
     (m \<noteq> [] \<and> hd m \<noteq> CHR ''$'' \<and>
      (case find_sub CRLF2 m of
         None \<Rightarrow> False
       | Some eol \<Rightarrow> 0 \<le> sharedParseContentLength (take eol m) \<and>
                     int (length m) = int eol + 4 + sharedParseContentLength (take eol m)))"

definition fits :: "nat \<Rightarrow> upstream_event \<Rightarrow> bool" where
  "fits cap ev = (event_ok ev \<and> length (event_bytes ev) \<le> cap \<and> int cap \<le> maxInt64)"

lemma event_bytes_ne: "event_ok ev \<Longrightarrow> event_bytes ev \<noteq> []"
  by (cases ev) auto

lemma pktLen_append: "4 \<le> length b \<Longrightarrow> pktLen (b @ t) = pktLen b"
  by (simp add: pktLen_def nth_append)

lemma find_sub_take:
  "find_sub p b = Some i \<Longrightarrow> b = c @ d \<Longrightarrow> find_sub p c = None \<or> find_sub p c = Some i"
  by (cases "find_sub p c") (auto dest: find_sub_append [where t = d])

lemma totalMsgLen_ok:
  assumes "fits cap (Message m)" "find_sub CRLF2 m = Some eol"
  shows "totalMsgLen eol (m @ t) = int (length m)"
proof -
  have e: "eol \<le> length m" using find_sub_bound [OF assms(2)] by simp
  have "int (length m) = int eol + 4 + sharedParseContentLength (take eol m)" "int (length m) \<le> maxInt64"
    using assms by (auto simp: fits_def)
  with e show ?thesis by (simp add: totalMsgLen_def wrap64_id)
qed

lemma nextFrame_whole:
  assumes "fits cap ev"
  shows "nextFrame (event_bytes ev @ t) = Frame ev t"
proof (cases ev)
  case (Packet ch b)
  with assms have "4 \<le> length b" "hd b = CHR ''$''" "byte_val (b ! 1) = ch" "length b = 4 + pktLen b"
    by (simp_all add: fits_def)
  moreover from this have "hd (b @ t) = CHR ''$''" by (cases b) auto
  ultimately show ?thesis
    using Packet by (simp add: nextFrame_def pktLen_append nth_append)
next
  case (Message m)
  with assms obtain eol where eol: "find_sub CRLF2 m = Some eol" and m: "m \<noteq> []" "hd m \<noteq> CHR ''$''"
    by (auto simp: fits_def split: option.splits)
  have "totalMsgLen eol (m @ t) = int (length m)"
    using totalMsgLen_ok [OF _ eol] assms Message by simp
  moreover have "find_sub CRLF2 (m @ t) = Some eol" by (rule find_sub_append [OF eol])
  ultimately show ?thesis
    using Message m by (simp add: nextFrame_def)
qed

lemma nextFrame_part:
  assumes "fits cap ev" "event_bytes ev = b @ d" "b \<noteq> []" "d \<noteq> []"
  shows "nextFrame b = NeedMore"
proof (cases ev)
  case (Packet ch bytes)
  with assms(1,2) have p: "hd (b @ d) = CHR ''$''" "length b + length d = 4 + pktLen (b @ d)"
    by (auto simp: fits_def)
  have "hd b = CHR ''$''" using p(1) assms(3) by simp
  moreover have "4 \<le> length b \<Longrightarrow> length b < 4 + pktLen b"
    using p(2) assms(4) pktLen_append [of b d] by (simp flip: length_greater_0_conv)
  ultimately show ?thesis by (simp add: nextFrame_def Let_def)
next
  case (Message m)
  with assms obtain eol where eol: "find_sub CRLF2 m = Some eol" and m: "hd m \<noteq> CHR ''$''" "m = b @ d"
    by (auto simp: fits_def split: option.splits)
  have hd: "hd b \<noteq> CHR ''$''" using m assms(3) by simp
  from find_sub_take [OF eol m(2)] show ?thesis
  proof
    assume "find_sub CRLF2 b = None"
    with hd show ?thesis by (simp add: nextFrame_def)
  next
    assume some: "find_sub CRLF2 b = Some eol"
    then have "eol \<le> length b" using find_sub_bound by fastforce
    then have "totalMsgLen eol b = totalMsgLen eol (m @ [])"
      using m(2) by (simp add: totalMsgLen_def)
    also have "\<dots> = int (length m)"
      using totalMsgLen_ok [OF _ eol] assms(1) Message by blast
    finally have "int (length b) < totalMsgLen eol b"
      using m(2) assms(4) by simp
    with hd some show ?thesis by (simp add: nextFrame_def)
  qed
qed

section \<open>The inner loop\<close>

lemma drain_Nil [simp]: "drain [] = Some ([], [], False)"
  by (simp add: drain.simps)

lemma drain_frame:
  "fits cap ev \<Longrightarrow>
     drain (event_bytes ev @ t) = Option.bind (drain t) (\<lambda>(evs, r, p). Some (ev # evs, r, p))"
  using event_bytes_ne [of ev] nextFrame_whole [of cap ev t]
  by (subst drain.simps) (simp add: fits_def)

text \<open>A proper part of a frame, possibly empty: what a read can leave in the buffer.\<close>

definition part_of :: "string \<Rightarrow> upstream_event list \<Rightarrow> nat \<Rightarrow> bool" where
  "part_of b evs cap =
     (b = [] \<or> (\<exists>ev d. evs \<noteq> [] \<and> ev = hd evs \<and> fits cap ev \<and> d \<noteq> [] \<and> event_bytes ev = b @ d))"

lemma drain_part: "part_of b evs cap \<Longrightarrow> drain b = Some ([], b, False)"
  by (cases "b = []") (auto simp: part_of_def drain.simps [of b] nextFrame_part)

lemma drain_frames:
  assumes "list_all (fits cap) evs" "drain b = Some ([], b, False)"
  shows "drain (concat (map event_bytes evs) @ b) = Some (evs, b, False)"
  using assms by (induction evs) (auto simp: drain_frame)

text \<open>
  Any prefix of the bytes of a sequence of frames is some whole frames and a part of the next
  one.
\<close>

lemma prefix_frames:
  assumes "list_all (fits cap) evs" "concat (map event_bytes evs) = b @ c"
  shows "\<exists>n b'. n \<le> length evs \<and> b = concat (map event_bytes (take n evs)) @ b' \<and>
           part_of b' (drop n evs) cap \<and> concat (map event_bytes (drop n evs)) = b' @ c"
  using assms
proof (induction evs arbitrary: b)
  case Nil
  then show ?case by (auto simp: part_of_def intro: exI [of _ 0])
next
  case (Cons ev evs)
  let ?e = "event_bytes ev"
  show ?case
  proof (cases "length b < length ?e")
    case True
    with Cons.prems(2) obtain d where "?e = b @ d" "d \<noteq> []"
      by (auto simp: append_eq_append_conv2)
    with Cons.prems have "part_of b (drop 0 (ev # evs)) cap" by (auto simp: part_of_def)
    with Cons.prems(2) show ?thesis by (intro exI [of _ 0] exI [of _ b]) simp
  next
    case False
    with Cons.prems(2) obtain b1 where b: "b = ?e @ b1" "concat (map event_bytes evs) = b1 @ c"
      by (auto simp: append_eq_append_conv2)
    with Cons.IH [of b1] Cons.prems(1) obtain n b' where
      "n \<le> length evs" "b1 = concat (map event_bytes (take n evs)) @ b'"
      "part_of b' (drop n evs) cap" "concat (map event_bytes (drop n evs)) = b' @ c"
      by auto
    with b show ?thesis by (intro exI [of _ "Suc n"] exI [of _ b']) simp
  qed
qed

lemma part_of_short: "part_of b evs cap \<Longrightarrow> cap \<noteq> 0 \<Longrightarrow> length b < cap"
  by (auto simp: part_of_def fits_def simp flip: length_greater_0_conv)

section \<open>The outer loop\<close>

lemma part_of_all:
  "part_of b evs cap \<Longrightarrow> concat (map event_bytes evs) = b \<Longrightarrow> list_all event_ok evs \<Longrightarrow> evs = [] \<and> b = []"
  by (cases evs) (auto simp: part_of_def event_bytes_ne)

lemma drain_prefix:
  assumes "list_all (fits cap) evs" "concat (map event_bytes evs) = b @ c" "cap \<noteq> 0"
  shows "\<exists>n b'. drain b = Some (take n evs, b', False) \<and> clearFull cap b' = b' \<and>
           concat (map event_bytes (drop n evs)) = b' @ c \<and> part_of b' (drop n evs) cap"
proof -
  obtain n b' where n: "b = concat (map event_bytes (take n evs)) @ b'"
      "part_of b' (drop n evs) cap" "concat (map event_bytes (drop n evs)) = b' @ c"
    using prefix_frames [OF assms(1,2)] by blast
  have "list_all (fits cap) (take n evs)" using assms(1) by (auto simp: list_all_iff dest: in_set_takeD)
  then have "drain b = Some (take n evs, b', False)"
    using drain_frames [OF _ drain_part [OF n(2)]] n(1) by simp
  moreover have "clearFull cap b' = b'"
    using part_of_short [OF n(2) assms(3)] by (simp add: clearFull_def)
  ultimately show ?thesis using n by blast
qed

lemma readFrames_frames:
  assumes "list_all (fits cap) evs" "cap \<noteq> 0" "concat (map event_bytes evs) = b @ c"
  shows "\<exists>n buffer rest.
           readFrames cap b c rs = Some (take n evs, Reading buffer rest) \<and>
           concat (map event_bytes (drop n evs)) = buffer @ rest \<and>
           (rest = [] \<longrightarrow> take n evs = evs \<and> buffer = [])"
  using assms(1,3)
proof (induction rs arbitrary: evs b c)
  case Nil
  then obtain n b' where n: "drain b = Some (take n evs, b', False)" "clearFull cap b' = b'"
      "concat (map event_bytes (drop n evs)) = b' @ c" "part_of b' (drop n evs) cap"
    using drain_prefix [OF _ _ assms(2)] by blast
  have "list_all event_ok (drop n evs)"
    using Nil.prems(1) by (auto simp: list_all_iff fits_def dest: in_set_dropD)
  then have "c = [] \<Longrightarrow> drop n evs = [] \<and> b' = []" using part_of_all [OF n(4)] n(3) by simp
  moreover have "drop n evs = [] \<Longrightarrow> take n evs = evs" using append_take_drop_id [of n evs] by simp
  ultimately show ?case using n by (intro exI [of _ n] exI [of _ b'] exI [of _ c]) simp
next
  case (Cons r rs)
  obtain n b' where n: "drain b = Some (take n evs, b', False)" "clearFull cap b' = b'"
      "concat (map event_bytes (drop n evs)) = b' @ c"
    using drain_prefix [OF Cons.prems assms(2)] by blast
  define k where "k = (case r of ReadUpTo k \<Rightarrow> min k (cap - length b') | ReadNothing \<Rightarrow> 0)"
  have "list_all (fits cap) (drop n evs)"
    using Cons.prems(1) by (auto simp: list_all_iff dest: in_set_dropD)
  moreover have "concat (map event_bytes (drop n evs)) = (b' @ take k c) @ drop k c"
    using n(3) by simp
  ultimately obtain m buffer rest where m:
      "readFrames cap (b' @ take k c) (drop k c) rs = Some (take m (drop n evs), Reading buffer rest)"
      "concat (map event_bytes (drop m (drop n evs))) = buffer @ rest"
      "rest = [] \<longrightarrow> take m (drop n evs) = drop n evs \<and> buffer = []"
    using Cons.IH by blast
  have "take n evs @ take m (drop n evs) = take (n + m) evs" by (simp add: take_add)
  moreover have "drop m (drop n evs) = drop (n + m) evs" by (simp add: add.commute)
  moreover have "take m (drop n evs) = drop n evs \<Longrightarrow> take (n + m) evs = evs" by (simp add: take_add)
  moreover have "readFrames cap b c (r # rs) = Some (take n evs @ take m (drop n evs), Reading buffer rest)"
    using n(1,2) m(1) by (simp add: k_def)
  ultimately show ?case using m(2,3) by metis
qed

lemma nextFrame_suffix: "nextFrame b = Frame ev rest \<Longrightarrow> suffix rest b"
  by (auto simp: nextFrame_def Let_def suffix_drop split: if_splits option.splits)

lemma nextFrame_progress:
  assumes "b \<noteq> []" "nextFrame b = Frame ev rest"
  shows "length rest = length b \<Longrightarrow> \<exists>eol. find_sub CRLF2 b = Some eol \<and> totalMsgLen eol b = 0"
  using assms by (auto simp: nextFrame_def Let_def split: if_splits option.splits)

lemma drain_stuck:
  assumes "b \<noteq> []" "nextFrame b = Frame ev b"
  shows "drain b = None"
proof -
  have "b' \<noteq> b" if "drain b' = Some r" for b' r
  proof (rule drain.raw_induct [where P = "\<lambda>b' r. b' \<noteq> b", OF _ that])
    fix f b' r
    assume IH: "\<And>x y. f x = Some y \<Longrightarrow> x \<noteq> b"
      and step: "(if b' = [] then Some ([], [], False)
         else (case nextFrame b' of
                 NeedMore \<Rightarrow> Some ([], b', False)
               | Frame ev rest \<Rightarrow> Option.bind (f rest) (\<lambda>(evs, r, p). Some (ev # evs, r, p))
               | FramePanic \<Rightarrow> Some ([], b', True))) = Some r"
    from IH have "f b = None" by (cases "f b") auto
    with step assms show "b' \<noteq> b" by auto
  qed
  then show ?thesis by (cases "drain b") auto
qed

lemma drain_panic: "b \<noteq> [] \<Longrightarrow> nextFrame b = FramePanic \<Longrightarrow> drain b = Some ([], b, True)"
  by (simp add: drain.simps [of b])

lemma pktLen_split:
  fixes k :: int
  assumes "0 \<le> k" "k < 65536"
  shows "push_bit 8 (drop_bit 8 (k AND 0xFF00) mod 256) OR (k AND 0xFF) mod 256 = k"
proof -
  have lo: "(k AND 0xFF) mod 256 = take_bit 8 k"
    using take_bit_eq_mask [of 8 k] by (simp add: mask_eq_exp_minus_1 take_bit_eq_mod)
  have "drop_bit 8 (k AND 0xFF00) = drop_bit 8 k AND drop_bit 8 0xFF00" by (rule drop_bit_and)
  also have "\<dots> = take_bit 8 (drop_bit 8 k)"
    by (simp add: drop_bit_eq_div [of 8 "0xFF00"] take_bit_eq_mask mask_eq_exp_minus_1)
  also have "\<dots> = drop_bit 8 k"
    using assms by (simp add: take_bit_eq_mod drop_bit_eq_div)
  finally have hi: "drop_bit 8 (k AND 0xFF00) mod 256 = drop_bit 8 k"
    using assms by (simp add: drop_bit_eq_div)
  show ?thesis
    unfolding lo hi using concat_bit_def [of 8 k "drop_bit 8 k"] concat_bit_eq [of 8 k "drop_bit 8 k"]
    by (simp add: or.commute push_bit_eq_mult drop_bit_eq_div take_bit_eq_mod)
qed

lemma pktLen_bytes:
  assumes "n < 65536"
  shows "pktLen ([a, b, to_byte (drop_bit 8 (int n AND 0xFF00)), to_byte (int n AND 0xFF)] @ d) = n"
proof -
  have "nat (push_bit 8 (byte_val (to_byte (drop_bit 8 (int n AND 0xFF00)))) OR byte_val (to_byte (int n AND 0xFF))) = n"
    using pktLen_split [of "int n"] assms by (simp only: byte_val_to_byte)
  then show ?thesis by (simp add: pktLen_def numeral_2_eq_2 numeral_3_eq_3)
qed

lemma fits_binaryFrame:
  assumes "0 \<le> channel" "channel < 256" "length data < 65536"
  shows "fits 65540 (Packet channel (binaryFrame channel data))"
  using assms by (simp add: fits_def binaryFrame_def pktLen_bytes [simplified] byte_val_to_byte)

text \<open>
  C4. Reassembly: when the camera sends well-formed frames that fit the buffer, the read loop
  hands on exactly these frames in this order, however the bytes are cut into reads and however
  many reads time out. At every moment the frames handed on are the first \<open>n\<close>, and the bytes of
  the others are in the buffer or still to come; when everything has arrived all of them have
  been handed on and the buffer is empty. The loop neither panics nor runs forever.
\<close>

theorem readLoop_reassembles:
  assumes "list_all (fits cap) evs" "cap \<noteq> 0"
  shows "\<exists>n buffer rest.
           readFrames cap [] (concat (map event_bytes evs)) rs = Some (take n evs, Reading buffer rest) \<and>
           concat (map event_bytes (drop n evs)) = buffer @ rest \<and>
           (rest = [] \<longrightarrow> take n evs = evs \<and> buffer = [])"
  using readFrames_frames [OF assms, of "[]" "concat (map event_bytes evs)" rs] by simp


theorem readLoop_reassembles_witness:
  "\<exists>n buffer rest.
     readFrames 64 [] (''$'' @ map char_of [2, 0, 3::nat] @ ''abc'' @ ''R'' @ CRLF @ ''Content-Length:2'' @ CRLF2 @ ''hi'')
       [ReadUpTo 5, ReadNothing, ReadUpTo 100] =
       Some (take n [Packet 2 (''$'' @ map char_of [2, 0, 3::nat] @ ''abc''),
                     Message (''R'' @ CRLF @ ''Content-Length:2'' @ CRLF2 @ ''hi'')], Reading buffer rest)"
proof -
  let ?p = "Packet 2 (''$'' @ map char_of [2, 0, 3::nat] @ ''abc'')"
  let ?m = "Message (''R'' @ CRLF @ ''Content-Length:2'' @ CRLF2 @ ''hi'')"
  have "list_all (fits 64) [?p, ?m]" by code_simp
  from readLoop_reassembles [OF this, of "[ReadUpTo 5, ReadNothing, ReadUpTo 100]"]
  show ?thesis by auto
qed

text \<open>
  The packet header round trip: a packet written by \<open>SendBinary\<close> for a channel below 256 with
  less than 64 KiB of data is one frame for the read loop, with this channel and these bytes, whatever
  follows it.
\<close>

theorem binaryFrame_roundtrip:
  assumes "0 \<le> channel" "channel < 256" "length data < 65536"
  shows "nextFrame (binaryFrame channel data @ rest) = Frame (Packet channel (binaryFrame channel data)) rest"
  using nextFrame_whole [OF fits_binaryFrame [OF assms], of rest] by simp

theorem binaryFrame_roundtrip_witness:
  "nextFrame (binaryFrame 3 ''data'' @ ''$x'') = Frame (Packet 3 (binaryFrame 3 ''data'')) ''$x''"
  using binaryFrame_roundtrip [of 3 "''data''" "''$x''"] by simp

text \<open>
  C34. Termination of the inner loop: it returns, with a suffix of the buffer left, unless some
  message in the buffer has a content length that cancels the length of its head.
\<close>

theorem drain_terminates:
  "(\<exists>evs rest panicked. drain buffer = Some (evs, rest, panicked) \<and> suffix rest buffer) \<or>
   (\<exists>s eol. suffix s buffer \<and> find_sub CRLF2 s = Some eol \<and> totalMsgLen eol s = 0)"
proof (induction buffer rule: length_induct)
  case (1 buffer)
  consider "buffer = [] \<or> nextFrame buffer = NeedMore \<or> nextFrame buffer = FramePanic"
    | ev rest where "buffer \<noteq> []" "nextFrame buffer = Frame ev rest"
    by (cases "nextFrame buffer") auto
  then show ?case
  proof cases
    case 1
    then have "\<exists>p. drain buffer = Some ([], buffer, p)" by (auto simp: drain.simps [of buffer])
    then show ?thesis by blast
  next
    case 2
    have suf: "suffix rest buffer" by (rule nextFrame_suffix [OF 2(2)])
    show ?thesis
    proof (cases "length rest < length buffer")
      case True
      have d: "drain buffer = Option.bind (drain rest) (\<lambda>(evs, r, p). Some (ev # evs, r, p))"
        using 2 by (subst drain.simps) simp
      from 1 True have "(\<exists>evs r p. drain rest = Some (evs, r, p) \<and> suffix r rest) \<or>
          (\<exists>s eol. suffix s rest \<and> find_sub CRLF2 s = Some eol \<and> totalMsgLen eol s = 0)" by blast
      then show ?thesis
        using suf d by (elim disjE) (fastforce dest: suffix_order.trans, meson suffix_order.trans)
    next
      case False
      then have "length rest = length buffer" using suf suffix_length_le le_antisym not_less by metis
      with nextFrame_progress [OF 2] show ?thesis by blast
    qed
  qed
qed


text \<open>
  A camera can crash the proxy: a more negative \<open>Content-Length\<close>, or one so large that the sum
  wraps around, makes the length negative, and slicing the buffer panics.
\<close>

theorem drain_panics:
  "drain (''R'' @ CRLF @ ''Content-Length:-99'' @ CRLF2) = Some ([], ''R'' @ CRLF @ ''Content-Length:-99'' @ CRLF2, True) \<and>
   drain (''R'' @ CRLF @ ''Content-Length:9223372036854775807'' @ CRLF2) =
     Some ([], ''R'' @ CRLF @ ''Content-Length:9223372036854775807'' @ CRLF2, True)"
  by (intro conjI drain_panic) code_simp+

end
