(* ===== verification/Go_Chan.thy ===== *)
theory Go_Chan
  imports Go_Prelude
begin

text \<open>
  Buffered Go channels with the operations the proxy uses: a send that never blocks (\<open>select\<close> with
  a \<open>default\<close>), a receive, and \<open>close\<close>. \<open>fifo\<close> is the interface through which the packet
  queues of the client sessions, the write channel of a client and the reply channel of a request
  are used; its lemmas describe a sequence of sends.
\<close>

section \<open>Definitions\<close>

record 'a chan =
  ch_buf :: "'a list"
  ch_cap :: nat
  ch_closed :: bool

definition make_chan :: "nat \<Rightarrow> 'a chan" where
  "make_chan n = \<lparr> ch_buf = [], ch_cap = n, ch_closed = False \<rparr>"

text \<open>
  \<open>select \{ case ch <- x: ... default: ... \}\<close>: whether the value was sent. A send on a closed
  channel panics: \<open>None\<close>.
\<close>

definition trySend :: "'a \<Rightarrow> 'a chan \<Rightarrow> ('a chan \<times> bool) option" where
  "trySend x ch =
     (if ch_closed ch then None
      else if length (ch_buf ch) < ch_cap ch then Some (ch\<lparr>ch_buf := ch_buf ch @ [x]\<rparr>, True)
      else Some (ch, False))"

definition tryRecv :: "'a chan \<Rightarrow> ('a \<times> 'a chan) option" where
  "tryRecv ch = (case ch_buf ch of [] \<Rightarrow> None | x # xs \<Rightarrow> Some (x, ch\<lparr>ch_buf := xs\<rparr>))"

text \<open>\<open>close\<close> panics on a closed channel: \<open>None\<close>.\<close>

definition closeChan :: "'a chan \<Rightarrow> 'a chan option" where
  "closeChan ch = (if ch_closed ch then None else Some (ch\<lparr>ch_closed := True\<rparr>))"

definition chan_ok :: "'a chan \<Rightarrow> bool" where
  "chan_ok ch = (length (ch_buf ch) \<le> ch_cap ch)"

lemma chan_ok_make [simp]: "chan_ok (make_chan n)"
  by (simp add: chan_ok_def make_chan_def)

lemma chan_ok_trySend: "trySend x ch = Some (ch', b) \<Longrightarrow> chan_ok ch \<Longrightarrow> chan_ok ch'"
  by (auto simp: trySend_def chan_ok_def split: if_splits)

lemma chan_ok_tryRecv: "tryRecv ch = Some (x, ch') \<Longrightarrow> chan_ok ch \<Longrightarrow> chan_ok ch'"
  by (auto simp: tryRecv_def chan_ok_def split: list.splits)

section \<open>The interface of a bounded queue\<close>

text \<open>
  \<open>push\<close> appends when there is room and otherwise refuses without effect; \<open>pop\<close> takes the
  oldest element.
\<close>

locale fifo =
  fixes push :: "'a \<Rightarrow> 'q \<Rightarrow> 'q \<times> bool"
    and pop :: "'q \<Rightarrow> ('a \<times> 'q) option"
    and contents :: "'q \<Rightarrow> 'a list"
    and room :: "'q \<Rightarrow> nat"
  assumes push_room: "0 < room q \<Longrightarrow> snd (push x q) \<and> contents (fst (push x q)) = contents q @ [x] \<and>
                        room (fst (push x q)) = room q - 1"
    and push_full: "room q = 0 \<Longrightarrow> push x q = (q, False)"
    and pop_empty: "contents q = [] \<Longrightarrow> pop q = None"
    and pop_first: "contents q = x # xs \<Longrightarrow> \<exists>q'. pop q = Some (x, q') \<and> contents q' = xs"
begin

text \<open>Sending a list of values, and which of them were refused.\<close>

lemma pushes_contents:
  "contents (fold (\<lambda>x q. fst (push x q)) xs q) = contents q @ take (room q) xs"
proof (induction xs arbitrary: q)
  case (Cons x xs)
  then show ?case
    by (cases "room q") (use push_room [of q x] push_full [of q x] in auto)
qed simp

lemma pushes_accepted:
  "length xs \<le> room q \<Longrightarrow> contents (fold (\<lambda>x q. fst (push x q)) xs q) = contents q @ xs"
  by (simp add: pushes_contents)

lemma push_prefix: "prefix (contents q) (contents (fst (push x q)))"
  by (cases "room q") (use push_room [of q x] push_full [of q x] in auto)

lemma push_iff: "snd (push x q) \<longleftrightarrow> 0 < room q"
  by (cases "room q") (use push_room [of q x] push_full [of q x] in auto)

text \<open>Values come out in the order in which they were accepted.\<close>

lemma pop_after_push:
  "contents q = y # ys \<Longrightarrow> \<exists>q'. pop (fst (push x q)) = Some (y, q') \<and>
     contents q' = (if 0 < room q then ys @ [x] else ys)"
  by (cases "room q") (use push_room [of q x] push_full [of q x] pop_first in force)+

end

end
