(* ===== verification/Proxy_Config.thy ===== *)
theory Proxy_Config
  imports Go_Prelude
begin

text \<open>
  The process-wide configuration (\<open>config.go\<close>), counters (\<open>metrics.go\<close>) and log switch
  (\<open>logger.go\<close>). Durations are \<open>int\<close> nanoseconds as \<open>time.Duration\<close> is; unsigned counters are
  64-bit words and wrap around. The uptime, in tenths of a second, and the outcome of
  \<open>net.Listen\<close> are arguments.
\<close>

section \<open>Configuration\<close>

record config =
  DialTimeout :: int
  ReadTimeout :: int
  WriteTimeout :: int
  KeepaliveInt :: int
  IdleTimeout :: int
  ReconnectBackoff :: "int list"
  PacketQueueSize :: int
  BufferSize :: int
  MetricsPort :: int

definition Second :: int where
  "Second = 1000000000"

definition DefaultConfig :: config where
  "DefaultConfig =
     \<lparr> DialTimeout = 5 * Second, ReadTimeout = 1 * Second, WriteTimeout = 5 * Second,
       KeepaliveInt = 55 * Second, IdleTimeout = 20 * Second,
       ReconnectBackoff = [1 * Second, 2 * Second, 5 * Second, 10 * Second, 30 * Second],
       PacketQueueSize = 1000, BufferSize = 65536, MetricsPort = 0 \<rparr>"

definition Validate :: "config \<Rightarrow> config" where
  "Validate c =
     (let c = (if DialTimeout c \<le> 0 then c\<lparr>DialTimeout := 5 * Second\<rparr> else c);
          c = (if ReadTimeout c \<le> 0 then c\<lparr>ReadTimeout := 1 * Second\<rparr> else c);
          c = (if WriteTimeout c \<le> 0 then c\<lparr>WriteTimeout := 5 * Second\<rparr> else c);
          c = (if PacketQueueSize c \<le> 0 then c\<lparr>PacketQueueSize := 1000\<rparr> else c);
          c = (if BufferSize c < 4096 then c\<lparr>BufferSize := 65536\<rparr> else c)
      in c)"

text \<open>What the other components need of a configuration.\<close>

definition config_ok :: "config \<Rightarrow> bool" where
  "config_ok c =
     (0 < DialTimeout c \<and> 0 < ReadTimeout c \<and> 0 < WriteTimeout c \<and>
      0 < PacketQueueSize c \<and> 4096 \<le> BufferSize c)"

section \<open>Counters\<close>

record metrics =
  m_PacketsForwarded :: "64 word"
  m_PacketsDropped :: "64 word"
  m_BytesForwarded :: "64 word"
  m_Reconnects :: "64 word"
  m_ActiveStreams :: int
  m_ActiveClients :: int
  m_AuthFailures :: "64 word"
  m_ConnectErrors :: "64 word"

definition metrics_zero :: metrics where
  "metrics_zero = \<lparr> m_PacketsForwarded = 0, m_PacketsDropped = 0, m_BytesForwarded = 0,
     m_Reconnects = 0, m_ActiveStreams = 0, m_ActiveClients = 0, m_AuthFailures = 0,
     m_ConnectErrors = 0 \<rparr>"

text \<open>One metric of the text exposition format: two comment lines and the sample.\<close>

definition metricText :: "string \<Rightarrow> string \<Rightarrow> string \<Rightarrow> string \<Rightarrow> string" where
  "metricText name help kind val =
     ''# HELP '' @ name @ '' '' @ help @ [LF] @
     ''# TYPE '' @ name @ '' '' @ kind @ [LF] @
     name @ '' '' @ val @ [LF]"

definition utoa :: "64 word \<Rightarrow> string" where
  "utoa w = nat_dec (unat w)"

text \<open>The uptime as \<open>%.1f\<close> prints it, from its tenths of a second.\<close>

definition tenths :: "nat \<Rightarrow> string" where
  "tenths t = nat_dec (t div 10) @ ''.'' @ nat_dec (t mod 10)"

definition metricList :: "metrics \<Rightarrow> nat \<Rightarrow> (string \<times> string \<times> string \<times> string) list" where
  "metricList m uptime =
     [(''rtsp_proxy_uptime_seconds'', ''Time since process start.'', ''gauge'', tenths uptime),
      (''rtsp_proxy_packets_forwarded_total'', ''RTP packets forwarded to clients.'', ''counter'',
         utoa (m_PacketsForwarded m)),
      (''rtsp_proxy_packets_dropped_total'', ''RTP packets dropped (slow clients).'', ''counter'',
         utoa (m_PacketsDropped m)),
      (''rtsp_proxy_bytes_forwarded_total'', ''Bytes of RTP data forwarded.'', ''counter'',
         utoa (m_BytesForwarded m)),
      (''rtsp_proxy_reconnects_total'', ''Upstream reconnect attempts.'', ''counter'',
         utoa (m_Reconnects m)),
      (''rtsp_proxy_active_streams'', ''Currently active streams.'', ''gauge'',
         itoa (m_ActiveStreams m)),
      (''rtsp_proxy_active_clients'', ''Currently connected clients.'', ''gauge'',
         itoa (m_ActiveClients m)),
      (''rtsp_proxy_auth_failures_total'', ''Authentication failures.'', ''counter'',
         utoa (m_AuthFailures m)),
      (''rtsp_proxy_connect_errors_total'', ''Upstream connect/dial errors.'', ''counter'',
         utoa (m_ConnectErrors m))]"

definition Handler :: "metrics \<Rightarrow> nat \<Rightarrow> string" where
  "Handler m uptime =
     concat (map (\<lambda>(name, help, kind, val). metricText name help kind val) (metricList m uptime))"

text \<open>
  The metrics HTTP server: whether one is running, and on which port. \<open>listen\<close> is the outcome of
  \<open>net.Listen\<close> on the port: \<open>None\<close>, or the error.
\<close>

definition StartMetricsServer ::
  "(int \<Rightarrow> string option) \<Rightarrow> int \<Rightarrow> int option \<Rightarrow> string + int option" where
  "StartMetricsServer listen port server =
     (if port \<le> 0 then Inr server
      else if server \<noteq> None then Inr server
      else (case listen port of
              Some err \<Rightarrow> Inl (''metrics listen :'' @ itoa port @ '': '' @ err)
            | None \<Rightarrow> Inr (Some port)))"

definition ShutdownMetricsServer :: "int option \<Rightarrow> int option \<times> int option" where
  "ShutdownMetricsServer server = (None, server)"

section \<open>Logging\<close>

record logger =
  verbose :: bool
  log_lines :: "string list"

definition SetVerbose :: "bool \<Rightarrow> logger \<Rightarrow> logger" where
  "SetVerbose v l = l\<lparr>verbose := v\<rparr>"

definition Logf :: "string \<Rightarrow> logger \<Rightarrow> logger" where
  "Logf line l = (if verbose l then l\<lparr>log_lines := log_lines l @ [line]\<rparr> else l)"

definition LogCriticalf :: "string \<Rightarrow> logger \<Rightarrow> logger" where
  "LogCriticalf line l = l\<lparr>log_lines := log_lines l @ [line]\<rparr>"

section \<open>Lemmas and properties\<close>

lemma Validate_ok: "config_ok (Validate c)"
  by (simp add: Validate_def config_ok_def Let_def Second_def)

lemma Validate_id: "config_ok c \<Longrightarrow> Validate c = c"
  by (simp add: Validate_def config_ok_def Let_def)

lemma DefaultConfig_ok: "config_ok DefaultConfig"
  by (simp add: DefaultConfig_def config_ok_def Second_def)

text \<open>
  \<open>Validate\<close> repairs every configuration: the timeouts and sizes it is responsible for are
  positive afterwards, a configuration within bounds (the default one among them) is left
  unchanged, so a second call does nothing, and the fields it does not check keep their values.
\<close>

theorem Validate_repairs:
  "config_ok (Validate c) \<and> Validate (Validate c) = Validate c \<and> Validate DefaultConfig = DefaultConfig \<and>
   IdleTimeout (Validate c) = IdleTimeout c \<and> ReconnectBackoff (Validate c) = ReconnectBackoff c \<and>
   KeepaliveInt (Validate c) = KeepaliveInt c \<and> MetricsPort (Validate c) = MetricsPort c"
  by (simp add: Validate_ok Validate_id DefaultConfig_ok) (simp add: Validate_def Let_def)

text \<open>
  Reading a sample back, as a scraper does: the rest of the first line that starts with the
  metric's name and a space.
\<close>

definition scrape :: "string \<Rightarrow> string \<Rightarrow> string option" where
  "scrape name body =
     map_option (drop (length name + 1)) (List.find (prefix (name @ '' '')) (split LF body))"

definition metricLines :: "(string \<times> string \<times> string \<times> string) \<Rightarrow> string list" where
  "metricLines = (\<lambda>(name, help, kind, val).
     [''# HELP '' @ name @ '' '' @ help, ''# TYPE '' @ name @ '' '' @ kind, name @ '' '' @ val])"

lemma visible_line: "list_all visible s \<Longrightarrow> LF \<notin> set s"
  by (auto simp: list_all_iff visible_def byte_val_def)

lemma value_lines [simp]: "LF \<notin> set (utoa w)" "LF \<notin> set (itoa n)" "LF \<notin> set (tenths t)"
  using visible_line [OF nat_dec_visible] visible_line [OF itoa_visible] by (auto simp: utoa_def tenths_def)

lemma split_lines:
  "list_all (\<lambda>l. LF \<notin> set l) ls \<Longrightarrow> split LF (concat (map (\<lambda>l. l @ [LF]) ls)) = ls @ [[]]"
  by (induction ls) (simp_all add: split_append)

lemma Handler_lines: "split LF (Handler m t) = concat (map metricLines (metricList m t)) @ [[]]"
proof -
  have "Handler m t = concat (map (\<lambda>l. l @ [LF]) (concat (map metricLines (metricList m t))))"
    by (simp add: Handler_def metricLines_def metricList_def metricText_def)
  moreover have "list_all (\<lambda>l. LF \<notin> set l) (concat (map metricLines (metricList m t)))"
    by (simp add: metricLines_def metricList_def)
  ultimately show ?thesis by (simp only: split_lines)
qed

text \<open>
  The exposition round trip: a scraper that looks up a metric by its name in the text served at
  \<open>/metrics\<close> reads exactly the counter, for each of the nine metrics.
\<close>

theorem Handler_scrape:
  "scrape ''rtsp_proxy_uptime_seconds'' (Handler m t) = Some (tenths t) \<and>
   scrape ''rtsp_proxy_packets_forwarded_total'' (Handler m t) = Some (utoa (m_PacketsForwarded m)) \<and>
   scrape ''rtsp_proxy_packets_dropped_total'' (Handler m t) = Some (utoa (m_PacketsDropped m)) \<and>
   scrape ''rtsp_proxy_bytes_forwarded_total'' (Handler m t) = Some (utoa (m_BytesForwarded m)) \<and>
   scrape ''rtsp_proxy_reconnects_total'' (Handler m t) = Some (utoa (m_Reconnects m)) \<and>
   scrape ''rtsp_proxy_active_streams'' (Handler m t) = Some (itoa (m_ActiveStreams m)) \<and>
   scrape ''rtsp_proxy_active_clients'' (Handler m t) = Some (itoa (m_ActiveClients m)) \<and>
   scrape ''rtsp_proxy_auth_failures_total'' (Handler m t) = Some (utoa (m_AuthFailures m)) \<and>
   scrape ''rtsp_proxy_connect_errors_total'' (Handler m t) = Some (utoa (m_ConnectErrors m))"
  unfolding scrape_def Handler_lines by (intro conjI) (simp_all add: metricLines_def metricList_def)

text \<open>
  The metrics server: starting it twice keeps the first, port zero or below never starts one, a
  failed listen leaves none running, and after a shutdown it can be started again.
\<close>

theorem StartMetricsServer_once:
  "StartMetricsServer listen port (Some p) = Inr (Some p) \<and>
   StartMetricsServer listen port (fst (ShutdownMetricsServer server)) =
     (if port \<le> 0 then Inr None
      else (case listen port of
              None \<Rightarrow> Inr (Some port)
            | Some err \<Rightarrow> Inl (''metrics listen :'' @ itoa port @ '': '' @ err)))"
  by (simp add: StartMetricsServer_def ShutdownMetricsServer_def split: option.split)

end
