(* ===== verification/Rtsp_Session.thy ===== *)
theory Rtsp_Session
  imports Go_Chan Proxy_Config
begin

text \<open>
  The session objects of a stream: \<open>transport.go\<close>, \<open>substream.go\<close>, \<open>session.go\<close>, \<open>ipc.go\<close> and
  \<open>client_session.go\<close>. Pointers back to the owner are left out: an operation takes the object and
  returns it updated. A session's keep-alive goroutines are part of its state, each known by the
  quit channel it captured; a client session's writer is a step function on its queue and the
  client's write channel.
\<close>

section \<open>Transports and substreams\<close>

record substream =
  su_substreamName :: string
  su_Port :: int
  su_Channel :: int
  su_Host :: string
  su_Seq :: int
  su_RTPTime :: int

definition NewSubstream :: "string \<Rightarrow> substream" where
  "NewSubstream name =
     \<lparr> su_substreamName = name, su_Port = 0, su_Channel = - 1, su_Host = [], su_Seq = 0, su_RTPTime = 0 \<rparr>"

record transport =
  tr_SubstreamName :: string
  tr_Protocol :: string
  tr_ComType :: string
  tr_Ssrc :: string
  tr_Substreams :: "(int, substream) gomap"

definition NewTransport :: "string \<Rightarrow> string \<Rightarrow> string \<Rightarrow> transport" where
  "NewTransport substreamName protocol comType =
     \<lparr> tr_SubstreamName = substreamName, tr_Protocol = protocol, tr_ComType = comType,
       tr_Ssrc = [], tr_Substreams = [] \<rparr>"

section \<open>Sessions\<close>

text \<open>
  \<open>se_quit\<close> is the current quit channel, by number, \<open>se_chans\<close> counts the channels made so far,
  \<open>se_closed\<close> are the closed ones, and \<open>se_loops\<close> the keep-alive goroutines that run, by the
  channel each captured.
\<close>

record session =
  se_Session :: string
  se_Timeout :: int
  se_Transports :: "transport list"
  se_started :: bool
  se_quit :: "nat option"
  se_chans :: nat
  se_closed :: "nat list"
  se_loops :: "nat list"

definition NewSession :: "string \<Rightarrow> int \<Rightarrow> session" where
  "NewSession sessionID timeout =
     \<lparr> se_Session = sessionID, se_Timeout = timeout, se_Transports = [], se_started = False,
       se_quit = None, se_chans = 0, se_closed = [], se_loops = [] \<rparr>"

definition transport_key :: "transport \<Rightarrow> string \<times> string \<times> string" where
  "transport_key t = (tr_SubstreamName t, tr_Protocol t, tr_ComType t)"

definition findTransport :: "session \<Rightarrow> string \<times> string \<times> string \<Rightarrow> transport option" where
  "findTransport session key = List.find (\<lambda>t. transport_key t = key) (se_Transports session)"

fun Session_LookupTransport :: "string \<times> string \<times> string \<Rightarrow> session \<Rightarrow> transport \<times> session" where
  "Session_LookupTransport (substreamName, protocol, comType) session =
     (case findTransport session (substreamName, protocol, comType) of
        Some transport \<Rightarrow> (transport, session)
      | None \<Rightarrow>
          (let transport = NewTransport substreamName protocol comType
           in (transport, session\<lparr>se_Transports := se_Transports session @ [transport]\<rparr>)))"

definition Session_Stop :: "session \<Rightarrow> session option" where
  "Session_Stop session =
     (if se_started session then
        (case se_quit session of
           None \<Rightarrow> Some (session\<lparr>se_started := False\<rparr>)
         | Some q \<Rightarrow>
             if q \<in> set (se_closed session) then None
             else Some (session\<lparr>se_started := False, se_closed := q # se_closed session, se_quit := None\<rparr>))
      else Some session)"

text \<open>
  The interval of the keep-alive ticker in nanoseconds. \<open>time.NewTicker\<close> panics unless it is
  positive.
\<close>

definition keepaliveInterval :: "int \<Rightarrow> int" where
  "keepaliveInterval timeout =
     (let t = wrap64 (timeout - 5);
          t = (if t < 0 then 1 else t)
      in wrap64 (t * Second))"

definition StartUpstream :: "session \<Rightarrow> session option" where
  "StartUpstream session =
     (if se_started session then Some session
      else if keepaliveInterval (se_Timeout session) \<le> 0 then None
      else Some (session\<lparr>se_started := True, se_quit := Some (se_chans session),
                         se_chans := se_chans session + 1,
                         se_loops := se_loops session @ [se_chans session]\<rparr>))"

text \<open>
  A keep-alive goroutine returns when its quit channel is closed, or when it finds the stream
  without a remote or its context done; the deferred call clears the flag of the session.
\<close>

definition loopExit :: "nat \<Rightarrow> session \<Rightarrow> session" where
  "loopExit q session = session\<lparr>se_loops := remove1 q (se_loops session), se_started := False\<rparr>"

inductive session_step :: "session \<Rightarrow> session \<Rightarrow> bool" where
  step_start: "StartUpstream s = Some s' \<Longrightarrow> session_step s s'"
| step_stop: "Session_Stop s = Some s' \<Longrightarrow> session_step s s'"
| step_quit: "q \<in> set (se_loops s) \<Longrightarrow> q \<in> set (se_closed s) \<Longrightarrow> session_step s (loopExit q s)"
| step_gone: "q \<in> set (se_loops s) \<Longrightarrow> session_step s (loopExit q s)"
| step_lookup: "session_step s (snd (Session_LookupTransport key s))"
| step_timeout: "session_step s (s\<lparr>se_Timeout := t\<rparr>)"

inductive_cases session_stepE: "session_step s t"

definition new_session :: "session \<Rightarrow> bool" where
  "new_session s = (\<exists>sid timeout. s = NewSession sid timeout)"

text \<open>
  The invariant of a session: one transport per key, the current quit channel is open, every
  goroutine has a channel of its own, and a running keep-alive has a current channel.
\<close>

definition session_inv :: "session \<Rightarrow> bool" where
  "session_inv s =
     (distinct (map transport_key (se_Transports s)) \<and>
      distinct (se_loops s) \<and>
      (\<forall>q\<in>set (se_loops s) \<union> set (se_closed s). q < se_chans s) \<and>
      (case se_quit s of
         None \<Rightarrow> \<not> se_started s
       | Some q \<Rightarrow> q < se_chans s \<and> q \<notin> set (se_closed s)) \<and>
      (se_started s \<longrightarrow> (\<exists>q. se_quit s = Some q \<and> q \<in> set (se_loops s))))"

section \<open>Replies to a request\<close>

record ipc =
  ipc_Channel :: "string chan"
  ipc_timeout :: int

definition NewIPC :: "int list \<Rightarrow> ipc" where
  "NewIPC timeout =
     \<lparr> ipc_Channel = make_chan 1, ipc_timeout = (case timeout of [] \<Rightarrow> 10 | t # _ \<Rightarrow> t) \<rparr>"

text \<open>
  What the \<open>select\<close> of \<open>GetResponse\<close> picks: the value in the channel, the cancelled context or the
  timer. Picking the value while the channel is empty means blocking: \<open>None\<close>. The deferred call
  closes the channel.
\<close>

datatype ipc_pick = PickReply | PickCancelled | PickTimer

definition GetResponse :: "ipc_pick \<Rightarrow> ipc \<Rightarrow> (string \<times> ipc) option" where
  "GetResponse pick i =
     (case pick of
        PickReply \<Rightarrow>
          (case tryRecv (ipc_Channel i) of
             None \<Rightarrow> None
           | Some (res, ch) \<Rightarrow> Some (res, i\<lparr>ipc_Channel := ch\<lparr>ch_closed := True\<rparr>\<rparr>))
      | PickCancelled \<Rightarrow> Some (''timeout'', i\<lparr>ipc_Channel := (ipc_Channel i)\<lparr>ch_closed := True\<rparr>\<rparr>)
      | PickTimer \<Rightarrow> Some (''timeout'', i\<lparr>ipc_Channel := (ipc_Channel i)\<lparr>ch_closed := True\<rparr>\<rparr>))"

text \<open>How the reader notifies a subscriber: a send that does not block and recovers from a panic.\<close>

definition notify :: "string \<Rightarrow> ipc \<Rightarrow> ipc" where
  "notify status i =
     (case trySend status (ipc_Channel i) of
        None \<Rightarrow> i
      | Some (ch, _) \<Rightarrow> i\<lparr>ipc_Channel := ch\<rparr>)"

section \<open>Client sessions\<close>

record client_session =
  cs_client :: nat
  cs_queue :: "string chan"
  cs_sessionID :: string
  cs_quitClosed :: bool
  cs_running :: bool
  cs_active :: bool
  cs_channels :: "(int, int) gomap"

text \<open>\<open>make(chan)\<close> with a negative size panics: \<open>None\<close>.\<close>

definition NewClientSession :: "config \<Rightarrow> nat \<Rightarrow> string \<Rightarrow> client_session option" where
  "NewClientSession cfg client sessionID =
     (if PacketQueueSize cfg < 0 then None
      else Some \<lparr> cs_client = client, cs_queue = make_chan (nat (PacketQueueSize cfg)),
                  cs_sessionID = sessionID, cs_quitClosed = False, cs_running = False,
                  cs_active = False, cs_channels = [] \<rparr>)"

definition ClientSession_Start :: "client_session \<Rightarrow> client_session" where
  "ClientSession_Start cs = (if cs_active cs then cs else cs\<lparr>cs_active := True, cs_running := True\<rparr>)"

text \<open>The writer drains its queue when it returns.\<close>

definition runExit :: "client_session \<Rightarrow> client_session" where
  "runExit cs = cs\<lparr>cs_running := False, cs_queue := (cs_queue cs)\<lparr>ch_buf := []\<rparr>\<rparr>"

text \<open>\<open>Stop\<close> closes the quit channel and waits for the writer. Closing it twice panics: \<open>None\<close>.\<close>

definition ClientSession_Stop :: "client_session \<Rightarrow> client_session option" where
  "ClientSession_Stop cs =
     (if \<not> cs_active cs then Some cs
      else if cs_quitClosed cs then None
      else Some (let cs = cs\<lparr>cs_active := False, cs_quitClosed := True\<rparr>
                 in if cs_running cs then runExit cs else cs))"

definition Push :: "string \<Rightarrow> client_session \<Rightarrow> client_session \<times> bool" where
  "Push packet cs =
     (case trySend packet (cs_queue cs) of
        None \<Rightarrow> (cs, False)
      | Some (q, sent) \<Rightarrow> (cs\<lparr>cs_queue := q\<rparr>, sent))"

definition QueueDepth :: "client_session \<Rightarrow> nat" where
  "QueueDepth cs = length (ch_buf (cs_queue cs))"

text \<open>
  One turn of the writer: it leaves because the session or the server stops, or takes the next
  packet and either hands it to the client's write channel or, when that stays full for 100 ms,
  drops it, asks for the client to be destroyed (the flag of \<open>Ran\<close>), and leaves. \<open>Blocked\<close> means
  that the choice is not enabled; sending on a closed write channel panics.
\<close>

datatype run_pick = PickQuit | PickServerDone | PickForward | PickSlow

datatype run_result = Blocked | RunPanic | Ran client_session "string chan" bool

definition run :: "run_pick \<Rightarrow> bool \<Rightarrow> client_session \<Rightarrow> string chan \<Rightarrow> run_result" where
  "run pick serverDone cs writeChan =
     (if \<not> cs_running cs then Blocked
      else (case pick of
        PickQuit \<Rightarrow> if cs_quitClosed cs then Ran (runExit cs) writeChan False else Blocked
      | PickServerDone \<Rightarrow> if serverDone then Ran (runExit cs) writeChan False else Blocked
      | PickForward \<Rightarrow>
          (case tryRecv (cs_queue cs) of
             None \<Rightarrow> Blocked
           | Some (packet, q) \<Rightarrow>
               (case trySend packet writeChan of
                  None \<Rightarrow> RunPanic
                | Some (w, sent) \<Rightarrow> if sent then Ran (cs\<lparr>cs_queue := q\<rparr>) w False else Blocked))
      | PickSlow \<Rightarrow>
          (case tryRecv (cs_queue cs) of
             None \<Rightarrow> Blocked
           | Some (packet, q) \<Rightarrow> Ran (runExit (cs\<lparr>cs_queue := q\<rparr>)) writeChan True)))"

text \<open>The queue of a client session as a bounded queue.\<close>

definition cs_pop :: "client_session \<Rightarrow> (string \<times> client_session) option" where
  "cs_pop cs = map_option (\<lambda>(p, q). (p, cs\<lparr>cs_queue := q\<rparr>)) (tryRecv (cs_queue cs))"

definition cs_contents :: "client_session \<Rightarrow> string list" where
  "cs_contents cs = ch_buf (cs_queue cs)"

definition cs_room :: "client_session \<Rightarrow> nat" where
  "cs_room cs = (if ch_closed (cs_queue cs) then 0 else ch_cap (cs_queue cs) - length (ch_buf (cs_queue cs)))"

section \<open>Transports are found again\<close>

definition transports_ok :: "session \<Rightarrow> bool" where
  "transports_ok s = distinct (map transport_key (se_Transports s))"

lemma find_key: "List.find (\<lambda>t. f t = k) ts = Some t \<Longrightarrow> t \<in> set ts \<and> f t = k"
  by (auto simp: find_Some_iff)

lemma find_append_new:
  "List.find P (ts @ [t]) = (case List.find P ts of None \<Rightarrow> if P t then Some t else None | Some x \<Rightarrow> Some x)"
  by (induction ts) auto

lemma find_no_key: "List.find (\<lambda>t. f t = k) ts = None \<longleftrightarrow> k \<notin> f ` set ts"
  by (auto simp: find_None_iff)

lemma NewTransport_key [simp]: "transport_key (NewTransport a b c) = (a, b, c)"
  by (simp add: transport_key_def NewTransport_def)

interpretation transports: keyed_registry findTransport Session_LookupTransport transports_ok
proof
  fix s and k :: "string \<times> string \<times> string"
  obtain a b c where k: "k = (a, b, c)" by (cases k)
  show "transports_ok s \<Longrightarrow> findTransport s k = Some v \<Longrightarrow> Session_LookupTransport k s = (v, s)" for v
    by (simp add: k)
  show "transports_ok s \<Longrightarrow> findTransport s k = None \<Longrightarrow>
      findTransport (snd (Session_LookupTransport k s)) k = Some (fst (Session_LookupTransport k s))"
    by (simp add: k findTransport_def find_append_new Let_def)
  show "transports_ok s \<Longrightarrow> k' \<noteq> k \<Longrightarrow> findTransport (snd (Session_LookupTransport k s)) k' = findTransport s k'"
    for k' by (auto simp: k findTransport_def find_append_new Let_def split: option.splits)
  show "transports_ok s \<Longrightarrow> transports_ok (snd (Session_LookupTransport k s))"
    by (auto simp: k transports_ok_def findTransport_def find_no_key Let_def split: option.splits)
qed

section \<open>The keep-alive\<close>

lemma new_session_NewSession [simp, intro]: "new_session (NewSession sid timeout)"
  by (auto simp: new_session_def)

lemma session_inv_new: "new_session s \<Longrightarrow> session_inv s"
  by (auto simp: new_session_def session_inv_def NewSession_def)

lemma session_inv_start: "session_inv s \<Longrightarrow> StartUpstream s = Some s' \<Longrightarrow> session_inv s'"
  by (auto simp: session_inv_def StartUpstream_def less_Suc_eq split: if_splits)

lemma session_inv_stop: "session_inv s \<Longrightarrow> Session_Stop s = Some s' \<Longrightarrow> session_inv s'"
  by (auto simp: session_inv_def Session_Stop_def split: if_splits option.splits)

lemma session_inv_exit: "session_inv s \<Longrightarrow> session_inv (loopExit q s)"
  by (auto simp: session_inv_def loopExit_def split: option.splits dest: notin_set_remove1)

lemma session_inv_lookup: "session_inv s \<Longrightarrow> session_inv (snd (Session_LookupTransport key s))"
  using transports.goc_ok [of s key]
  by (cases key) (auto simp: session_inv_def transports_ok_def Let_def split: option.splits)

lemma session_inv_timeout: "session_inv s \<Longrightarrow> session_inv (s\<lparr>se_Timeout := t\<rparr>)"
  by (auto simp: session_inv_def split: option.splits)

interpretation keepalive: inductive_invariant new_session session_step session_inv
proof
  show "new_session s \<Longrightarrow> session_inv s" for s by (rule session_inv_new)
  show "session_inv s \<Longrightarrow> session_step s t \<Longrightarrow> session_inv t" for s t
    by (erule session_stepE)
      (auto intro: session_inv_start session_inv_stop session_inv_exit session_inv_lookup session_inv_timeout
        simp del: Session_LookupTransport.simps)
qed

interpretation queue: fifo Push cs_pop cs_contents cs_room
proof
  fix cs :: client_session and x :: string
  show "0 < cs_room cs \<Longrightarrow> snd (Push x cs) \<and> cs_contents (fst (Push x cs)) = cs_contents cs @ [x] \<and>
      cs_room (fst (Push x cs)) = cs_room cs - 1"
    by (auto simp: cs_room_def Push_def trySend_def cs_contents_def split: if_splits)
  show "cs_room cs = 0 \<Longrightarrow> Push x cs = (cs, False)"
    by (auto simp: cs_room_def Push_def trySend_def split: if_splits)
  show "cs_contents cs = [] \<Longrightarrow> cs_pop cs = None"
    by (simp add: cs_contents_def cs_pop_def tryRecv_def)
  show "cs_contents cs = x # xs \<Longrightarrow> \<exists>q'. cs_pop cs = Some (x, q') \<and> cs_contents q' = xs" for xs
    by (simp add: cs_contents_def cs_pop_def tryRecv_def)
qed

lemma Push_keeps [simp]:
  "cs_client (fst (Push p cs)) = cs_client cs" "cs_channels (fst (Push p cs)) = cs_channels cs"
  "cs_active (fst (Push p cs)) = cs_active cs" "cs_running (fst (Push p cs)) = cs_running cs"
  "cs_quitClosed (fst (Push p cs)) = cs_quitClosed cs"
  by (simp_all add: Push_def split: option.split)

section \<open>Properties\<close>

text \<open>
  A session's transport registry: whatever transports are looked up in between, looking up the
  same substream, protocol and type again gives the same transport object, and no key ever has
  two.
\<close>

theorem LookupTransport_stable:
  assumes "distinct (map transport_key (se_Transports s))"
  shows "fst (Session_LookupTransport k
           (fold (\<lambda>k s. snd (Session_LookupTransport k s)) ks (snd (Session_LookupTransport k s)))) =
         fst (Session_LookupTransport k s) \<and>
         distinct (map transport_key (se_Transports (fold (\<lambda>k s. snd (Session_LookupTransport k s)) ks s)))"
  using transports.goc_stable [of s k ks] transports.gocs_ok [of s ks] assms by (simp add: transports_ok_def)

theorem LookupTransport_stable_witness:
  "fst (Session_LookupTransport (''trackID=1'', ''RTP/AVP/TCP'', ''unicast'')
     (fold (\<lambda>k s. snd (Session_LookupTransport k s)) [(''trackID=2'', ''RTP/AVP/TCP'', ''unicast'')]
       (snd (Session_LookupTransport (''trackID=1'', ''RTP/AVP/TCP'', ''unicast'') (NewSession ''7'' 60))))) =
   NewTransport ''trackID=1'' ''RTP/AVP/TCP'' ''unicast''"
  using LookupTransport_stable [of "NewSession ''7'' 60" "(''trackID=1'', ''RTP/AVP/TCP'', ''unicast'')"
      "[(''trackID=2'', ''RTP/AVP/TCP'', ''unicast'')]"]
  by (simp add: NewSession_def findTransport_def Let_def)

text \<open>
  C30. Stopping a session is safe at any moment of its life: \<open>Stop\<close> never closes a quit channel
  twice, and if the keep-alive is marked as started it closes the channel a running keep-alive
  goroutine listens to.
\<close>

theorem Session_Stop_safe:
  assumes "reach new_session session_step s"
  shows "\<exists>s'. Session_Stop s = Some s' \<and> \<not> se_started s' \<and>
           (se_started s \<longrightarrow> (\<exists>q. q \<in> set (se_loops s) \<and> q \<notin> set (se_closed s) \<and> q \<in> set (se_closed s')))"
  using keepalive.reach_inv [OF assms]
  by (auto simp: session_inv_def Session_Stop_def split: option.splits)

theorem Session_Stop_safe_witness:
  "\<exists>s s' q. StartUpstream (NewSession ''7'' 60) = Some s \<and> Session_Stop s = Some s' \<and>
     q \<in> set (se_loops s) \<and> q \<in> set (se_closed s')"
proof -
  obtain s where s: "StartUpstream (NewSession ''7'' 60) = Some s" "se_started s"
    by (simp add: StartUpstream_def NewSession_def keepaliveInterval_def Second_def Let_def wrap64_id)
  have "reach new_session session_step s"
    by (rule reach_step [where s = "NewSession ''7'' 60"])
      (use s in \<open>auto intro: reach_init step_start\<close>)
  from Session_Stop_safe [OF this] s show ?thesis by blast
qed

text \<open>
  For any session timeout up to 292 years, starting the keep-alive fails in exactly one case: a
  camera that announces \<open>timeout=5\<close> makes the ticker's interval zero, and \<open>time.NewTicker\<close>
  panics.
\<close>

theorem StartUpstream_panics_iff:
  assumes "minInt64 + 5 \<le> se_Timeout s" "se_Timeout s \<le> 9223372041" "\<not> se_started s"
  shows "StartUpstream s = None \<longleftrightarrow> se_Timeout s = 5"
  using assms by (auto simp: StartUpstream_def keepaliveInterval_def Let_def wrap64_id Second_def)

theorem StartUpstream_panics_iff_witness:
  "StartUpstream (NewSession ''7'' 5) = None"
  using StartUpstream_panics_iff [of "NewSession ''7'' 5"] by (simp add: NewSession_def)

text \<open>
  A stale keep-alive goroutine can detach a newer one: after start, stop and start again, the
  first goroutine's deferred reset clears the flag of the second, whose quit channel is then never
  closed, and \<open>Stop\<close> has no effect.
\<close>

theorem keepalive_leak:
  "\<exists>s q. reach new_session session_step s \<and> q \<in> set (se_loops s) \<and> q \<notin> set (se_closed s) \<and>
     Session_Stop s = Some s"
proof -
  let ?s0 = "NewSession ''7'' 60"
  define s1 where "s1 = the (StartUpstream ?s0)"
  define s2 where "s2 = the (Session_Stop s1)"
  define s3 where "s3 = the (StartUpstream s2)"
  note defs = s1_def s2_def s3_def StartUpstream_def Session_Stop_def NewSession_def keepaliveInterval_def
    Second_def Let_def wrap64_id
  have "StartUpstream ?s0 = Some s1" "Session_Stop s1 = Some s2" "StartUpstream s2 = Some s3"
    "0 \<in> set (se_loops s3)" "0 \<in> set (se_closed s3)"
    by (simp_all add: defs)
  then have "reach new_session session_step (loopExit 0 s3)"
    by (meson reach_init reach_step step_start step_stop step_quit new_session_NewSession)
  moreover have "1 \<in> set (se_loops (loopExit 0 s3))" "1 \<notin> set (se_closed (loopExit 0 s3))"
    "Session_Stop (loopExit 0 s3) = Some (loopExit 0 s3)"
    by (simp_all add: loopExit_def defs)
  ultimately show ?thesis by blast
qed

text \<open>
  The reply of a request: the waiter gets the first status that was sent, whatever is sent
  after it, and a status that comes after the waiter has left is dropped without a panic reaching
  the reader.
\<close>

theorem ipc_first_reply:
  "map_option fst (GetResponse PickReply (fold notify (status # later) (NewIPC t))) = Some status \<and>
   (case GetResponse pick i of None \<Rightarrow> True | Some (_, i') \<Rightarrow> notify late i' = i')"
proof
  have "ch_buf (ipc_Channel (fold notify later i)) = [x]"
    if "ch_buf (ipc_Channel i) = [x]" "ch_cap (ipc_Channel i) = 1" "\<not> ch_closed (ipc_Channel i)" for x i
    using that by (induction later arbitrary: i) (auto simp: notify_def trySend_def)
  from this [of "notify status (NewIPC t)" status]
  show "map_option fst (GetResponse PickReply (fold notify (status # later) (NewIPC t))) = Some status"
    by (simp add: GetResponse_def tryRecv_def notify_def trySend_def NewIPC_def make_chan_def split: list.splits)
  show "case GetResponse pick i of None \<Rightarrow> True | Some (_, i') \<Rightarrow> notify late i' = i'"
    by (auto simp: GetResponse_def notify_def trySend_def split: option.splits ipc_pick.splits)
qed

text \<open>
  The writer of a client session keeps the order: handing a packet on moves the oldest packet
  of the queue to the end of the client's write channel, and nothing else changes. It panics only
  when the write channel is closed.
\<close>

theorem run_forward_order:
  "(case run PickForward done cs w of
      Ran cs' w' slow \<Rightarrow> ch_buf w' @ cs_contents cs' = ch_buf w @ cs_contents cs \<and>
        length (ch_buf w') = length (ch_buf w) + 1 \<and> \<not> slow \<and> cs_running cs'
    | RunPanic \<Rightarrow> ch_closed w
    | Blocked \<Rightarrow> (if cs_running cs then cs_contents cs = [] \<or> ch_cap w \<le> length (ch_buf w) else True))"
  by (auto simp: run_def tryRecv_def trySend_def cs_contents_def split: list.splits option.splits if_splits)

end
