(* ===== verification/Rtsp_Remote.thy ===== *)
theory Rtsp_Remote
  imports Digest_Auth Rtsp_Framing Rtsp_Session
begin

text \<open>
  The connection to a camera: the part of \<open>remote.go\<close> that needs only the remote itself. The
  requests that the code shares by pointer live in a store, by number: the queue of requests
  waiting for a response holds the numbers. \<open>rm_wire\<close> records what has been written to the
  current connection. What the network does (dialling, writing) and the random bytes are
  arguments. A panic is \<open>None\<close>.
\<close>

section \<open>Definitions\<close>

record remote =
  rm_Host :: string
  rm_conn :: bool
  rm_wire :: "string list"
  rm_localAddr :: string
  rm_localPort :: string
  rm_remoteAddr :: string
  rm_remotePort :: string
  rm_currentCSeq :: int
  rm_requests :: "nat list"
  rm_store :: "(nat, request) gomap"
  rm_ipcs :: "(nat, ipc) gomap"
  rm_next :: nat
  rm_digest :: digest

text \<open>
  What an operation meets outside: whether the server's context is done, the outcome of dialling
  (an error, or the local and the remote address), the error of a write,
  if any (\<open>SendBinary\<close> writes twice), and random bytes.
\<close>

record net_env =
  ne_serverDone :: bool
  ne_dial :: "string + (string \<times> string)"
  ne_write :: "string option"
  ne_writeData :: "string option"
  ne_random :: string

text \<open>A network that works.\<close>

definition net_ok :: net_env where
  "net_ok = \<lparr> ne_serverDone = False, ne_dial = Inr (''10.0.0.1:5000'', ''10.0.0.2:554''), ne_write = None,
              ne_writeData = None, ne_random = [] \<rparr>"

text \<open>\<open>resolve\<close> is the outcome of \<open>net.ResolveTCPAddr\<close> on the host.\<close>

definition NewRemote :: "bool \<Rightarrow> string \<Rightarrow> string \<Rightarrow> string \<Rightarrow> remote option" where
  "NewRemote resolve host username password =
     (if resolve then
        Some \<lparr> rm_Host = host, rm_conn = False, rm_wire = [], rm_localAddr = [], rm_localPort = [],
               rm_remoteAddr = [], rm_remotePort = [], rm_currentCSeq = 0, rm_requests = [], rm_store = [],
               rm_ipcs = [], rm_next = 0,
               rm_digest = (if username \<noteq> [] then NewDigest\<lparr>dg_Username := username, dg_Password := password\<rparr>
                            else NewDigest) \<rparr>
      else None)"

text \<open>A text in double quotes, as \<open>%q\<close> prints a host name and the headers write their values.\<close>

definition dquote :: "string \<Rightarrow> string" where
  "dquote s = [CHR 0x22] @ s @ [CHR 0x22]"

text \<open>Closing the connection forgets the nonce, the waiting requests and the sequence number.\<close>

definition Disconnect :: "remote \<Rightarrow> remote" where
  "Disconnect r =
     (if rm_conn r then
        r\<lparr>rm_conn := False,
          rm_digest := (rm_digest r)\<lparr>dg_Nonce := [], dg_Nc := 0\<rparr>,
          rm_requests := [],
          rm_currentCSeq := 0\<rparr>
      else r)"

text \<open>The same under a lock that is already held, after an error; and the cleanup of a remote.\<close>

definition disconnectLocked :: "remote \<Rightarrow> remote" where
  "disconnectLocked r = Disconnect r"

declare disconnectLocked_def [simp]

definition Remote_Destroy :: "remote \<Rightarrow> string option \<times> remote" where
  "Remote_Destroy r = (None, Disconnect r)"

definition dialLocked :: "net_env \<Rightarrow> remote \<Rightarrow> metrics \<Rightarrow> string option \<times> remote \<times> metrics" where
  "dialLocked e r mt =
     (if ne_serverDone e then (Some ''server is shutting down'', r, mt)
      else (case ne_dial e of
        Inl err \<Rightarrow> (Some (''failed to connect to '' @ dquote (rm_Host r) @ '': '' @ err), r,
                     mt\<lparr>m_ConnectErrors := m_ConnectErrors mt + 1\<rparr>)
      | Inr (local, rem) \<Rightarrow>
          (let localAddr = split (CHR '':'') local;
               remoteAddr = split (CHR '':'') rem
           in (None,
               r\<lparr>rm_conn := True, rm_wire := [], rm_localAddr := localAddr ! 0, rm_localPort := localAddr ! 1,
                 rm_remoteAddr := remoteAddr ! 0, rm_remotePort := remoteAddr ! 1, rm_currentCSeq := 0\<rparr>,
               mt))))"

definition Dial :: "net_env \<Rightarrow> remote \<Rightarrow> metrics \<Rightarrow> string option \<times> remote \<times> metrics" where
  "Dial e r mt = dialLocked e r mt"

text \<open>The \<open>Authorization\<close> header: Digest when there is a nonce, Basic when there is only a realm.\<close>

definition digestHeader :: "digest \<Rightarrow> string \<Rightarrow> string \<Rightarrow> string \<Rightarrow> string \<Rightarrow> string" where
  "digestHeader d uri resp ncStr cnonce =
     ''Digest username='' @ dquote (dg_Username d) @ '', realm='' @ dquote (dg_Realm d) @
     '', nonce='' @ dquote (dg_Nonce d) @ '', uri='' @ dquote uri @ '', response='' @ dquote resp @
     (if dg_Qop d \<noteq> [] then '', qop='' @ dg_Qop d @ '', nc='' @ ncStr @ '', cnonce='' @ dquote cnonce else []) @
     (if dg_Opaque d \<noteq> [] then '', opaque='' @ dquote (dg_Opaque d) else []) @
     (if dg_Algorithm d \<noteq> [] \<and> \<not> equalFold (dg_Algorithm d) ''MD5'' then '', algorithm='' @ dg_Algorithm d else [])"

definition basicHeader :: "digest \<Rightarrow> string" where
  "basicHeader d = ''Basic '' @ b64_encode (dg_Username d @ '':'' @ dg_Password d)"

definition setHeader :: "string \<Rightarrow> string \<Rightarrow> request \<Rightarrow> request" where
  "setHeader k v request = request\<lparr>rq_Headers := mput k v (rq_Headers request)\<rparr>"

definition createAuthenticatorStr :: "string \<Rightarrow> digest \<Rightarrow> request \<Rightarrow> (request \<times> digest) option" where
  "createAuthenticatorStr rnd d request =
     (if dg_Realm d = [] \<or> dg_Username d = [] \<or> dg_Password d = [] then Some (request, d)
      else (case GetURL request of
        None \<Rightarrow> None
      | Some u \<Rightarrow>
          (if dg_Nonce d \<noteq> [] then
             (case ComputeResponse rnd d (rq_Method request) (url_string u) of
                ((resp, ncStr, cnonce), d') \<Rightarrow>
                  Some (setHeader ''Authorization'' (digestHeader d' (url_string u) resp ncStr cnonce) request, d'))
           else Some (setHeader ''Authorization'' (basicHeader d) request, d))))"

definition handleAuthenticationFailure :: "string \<Rightarrow> digest \<Rightarrow> bool \<times> digest" where
  "handleAuthenticationFailure paramsStr d =
     (if paramsStr = [] then (False, d)
      else if dg_Username d = [] \<or> dg_Password d = [] then (False, d)
      else
        (let c = ParseWWWAuthenticate paramsStr
         in if ch_isDigest c then
              (True, d\<lparr>dg_Realm := ch_realm c, dg_Nonce := ch_nonce c, dg_Qop := ch_qop c,
                       dg_Opaque := ch_opaque c, dg_Algorithm := ch_algorithm c, dg_Nc := 0\<rparr>)
            else if ch_realm c \<noteq> [] then (True, d\<lparr>dg_Realm := ch_realm c, dg_Nonce := []\<rparr>)
            else (False, d)))"

text \<open>
  \<open>SendRequest\<close>: dial when there is no connection, number and authenticate the request, print it
  and write it. The result is the error, if any.
\<close>

definition SendRequest :: "net_env \<Rightarrow> nat \<Rightarrow> remote \<Rightarrow> metrics \<Rightarrow> (string option \<times> remote \<times> metrics) option" where
  "SendRequest e rid r mt =
     (case (if rm_conn r then (None, r, mt) else dialLocked e r mt) of
        (Some err, r, mt) \<Rightarrow> Some (Some err, r, mt)
      | (None, r, mt) \<Rightarrow>
          (case mget (rm_store r) rid of
             None \<Rightarrow> None
           | Some request \<Rightarrow>
               (let cseq = rm_currentCSeq r + 1;
                    request = setHeader ''CSeq'' (itoa cseq) request
                in case createAuthenticatorStr (ne_random e) (rm_digest r) request of
                     None \<Rightarrow> None
                   | Some (request, d) \<Rightarrow>
                       (case requestString request (rq_Headers request) of
                          None \<Rightarrow> None
                        | Some rawRequest \<Rightarrow>
                            (let r = r\<lparr>rm_currentCSeq := cseq, rm_store := mput rid request (rm_store r), rm_digest := d\<rparr>
                             in case ne_write e of
                                  None \<Rightarrow> Some (None, r\<lparr>rm_wire := rm_wire r @ [rawRequest]\<rparr>, mt)
                                | Some err \<Rightarrow> Some (Some (''failed to write to remote: '' @ err), disconnectLocked r, mt))))))"

text \<open>A new request object.\<close>

definition allocRequest :: "request \<Rightarrow> remote \<Rightarrow> nat \<times> remote" where
  "allocRequest request r = (rm_next r, r\<lparr>rm_store := mput (rm_next r) request (rm_store r), rm_next := rm_next r + 1\<rparr>)"

definition SendTeardown :: "net_env \<Rightarrow> string \<Rightarrow> string \<Rightarrow> remote \<Rightarrow> metrics \<Rightarrow>
  (string option \<times> remote \<times> metrics) option" where
  "SendTeardown e path sessionID r mt =
     (let request = setHeader ''Session'' sessionID (NewRequest ''TEARDOWN'' (Some (rtsp_url (rm_Host r) path)) []);
          (rid, r) = allocRequest request r
      in SendRequest e rid r mt)"

definition SendBinary :: "net_env \<Rightarrow> int \<Rightarrow> string \<Rightarrow> remote \<Rightarrow> string option \<times> remote" where
  "SendBinary e channel data r =
     (if \<not> rm_conn r then (Some ''remote connection is closed'', r)
      else
        (let header = take 4 (binaryFrame channel data)
         in case ne_write e of
              Some err \<Rightarrow> (Some (''failed to write binary header: '' @ err), disconnectLocked r)
            | None \<Rightarrow>
                (case ne_writeData e of
                   Some err \<Rightarrow> (Some (''failed to write binary data: '' @ err),
                                disconnectLocked (r\<lparr>rm_wire := rm_wire r @ [header]\<rparr>))
                 | None \<Rightarrow> (None, r\<lparr>rm_wire := rm_wire r @ [header, data]\<rparr>))))"

text \<open>\<open>parseTransport\<close>: protocol, communication type, parameters.\<close>

definition addParam :: "string \<Rightarrow> headers \<Rightarrow> headers" where
  "addParam element params =
     (case splitN 2 (CHR ''='') element of [k, v] \<Rightarrow> mput k v params | _ \<Rightarrow> params)"

definition parseTransport :: "string \<Rightarrow> string \<times> string \<times> headers" where
  "parseTransport transportStr =
     (if transportStr = [] then ([], [], [])
      else
        (let parts = split (CHR '';'') transportStr
         in (parts ! 0, (if 1 < length parts then parts ! 1 else ''unicast''), fold addParam (drop 2 parts) [])))"

section \<open>Lemmas\<close>

lemma setHeader_simps [simp]:
  "rq_Method (setHeader k v q) = rq_Method q" "rq_URL (setHeader k v q) = rq_URL q"
  "GetURL (setHeader k v q) = GetURL q" "rq_Headers (setHeader k v q) = mput k v (rq_Headers q)"
  "rq_Attempts (setHeader k v q) = rq_Attempts q" "rq_Subscriptions (setHeader k v q) = rq_Subscriptions q"
  by (simp_all add: setHeader_def GetURL_def)

lemma Disconnect_conn [simp]: "\<not> rm_conn (Disconnect r)"
  by (simp add: Disconnect_def)

lemma Disconnect_idem [simp]: "Disconnect (Disconnect r) = Disconnect r"
  by (simp add: Disconnect_def)

lemma GetURL_None [simp]: "GetURL q = None \<longleftrightarrow> rq_URL q = None"
  by (simp add: GetURL_def)

lemma createAuthenticatorStr_keeps:
  assumes "createAuthenticatorStr rnd d q = Some (q', d')"
  shows "k \<noteq> ''Authorization'' \<Longrightarrow> mget (rq_Headers q') k = mget (rq_Headers q) k"
    and "rq_URL q' = rq_URL q"
  using assms by (auto simp: createAuthenticatorStr_def split: if_splits option.splits prod.splits)

lemma createAuthenticatorStr_total: "rq_URL q \<noteq> None \<Longrightarrow> createAuthenticatorStr rnd d q \<noteq> None"
  by (auto simp: createAuthenticatorStr_def split: option.splits prod.splits)

text \<open>A request written to an open connection.\<close>

lemma SendRequest_open:
  assumes "rm_conn r" "ne_write e = None" "mget (rm_store r) rid = Some q" "rq_URL q \<noteq> None"
  shows "\<exists>r' q' raw. SendRequest e rid r mt = Some (None, r', mt) \<and> rm_conn r' \<and>
           rm_currentCSeq r' = rm_currentCSeq r + 1 \<and> rm_wire r' = rm_wire r @ [raw] \<and>
           rm_store r' = mput rid q' (rm_store r) \<and> rq_URL q' = rq_URL q \<and>
           mget (rq_Headers q') ''CSeq'' = Some (itoa (rm_currentCSeq r + 1)) \<and>
           requestString q' (rq_Headers q') = Some raw \<and> rm_requests r' = rm_requests r"
proof -
  let ?q = "setHeader ''CSeq'' (itoa (rm_currentCSeq r + 1)) q"
  obtain q' d where c: "createAuthenticatorStr (ne_random e) (rm_digest r) ?q = Some (q', d)"
    using createAuthenticatorStr_total [of ?q] assms(4) by (metis not_None_eq setHeader_simps(2) surj_pair)
  note keep = createAuthenticatorStr_keeps [OF c]
  obtain raw where raw: "requestString q' (rq_Headers q') = Some raw"
    using keep(2) assms(4) by (auto simp: requestString_def GetURL_def)
  have "SendRequest e rid r mt = Some (None, r\<lparr>rm_currentCSeq := rm_currentCSeq r + 1,
      rm_store := mput rid q' (rm_store r), rm_digest := d, rm_wire := rm_wire r @ [raw]\<rparr>, mt)"
    using assms c raw by (simp add: SendRequest_def Let_def)
  then show ?thesis
    using keep(1) [of "''CSeq''"] keep(2) raw assms(1) by (simp, intro exI [of _ q'], simp)
qed

text \<open>Several requests written one after the other.\<close>

fun sendAll :: "net_env \<Rightarrow> nat list \<Rightarrow> remote \<Rightarrow> metrics \<Rightarrow> remote option" where
  "sendAll e [] r mt = Some r"
| "sendAll e (rid # rids) r mt =
     (case SendRequest e rid r mt of
        Some (None, r', mt') \<Rightarrow> sendAll e rids r' mt'
      | _ \<Rightarrow> None)"

lemma sendAll_numbers:
  assumes "rm_conn r" "ne_write e = None" "distinct rids"
    "\<And>rid. rid \<in> set rids \<Longrightarrow> \<exists>q. mget (rm_store r) rid = Some q \<and> rq_URL q \<noteq> None"
  shows "\<exists>r'. sendAll e rids r mt = Some r' \<and> rm_currentCSeq r' = rm_currentCSeq r + int (length rids) \<and>
           length (rm_wire r') = length (rm_wire r) + length rids \<and>
           (\<forall>rid. rid \<notin> set rids \<longrightarrow> mget (rm_store r') rid = mget (rm_store r) rid) \<and>
           (\<forall>i < length rids. \<exists>q. mget (rm_store r') (rids ! i) = Some q \<and>
              requestString q (rq_Headers q) = Some (rm_wire r' ! (length (rm_wire r) + i)) \<and>
              mget (rq_Headers q) ''CSeq'' = Some (itoa (rm_currentCSeq r + int i + 1))) \<and>
           take (length (rm_wire r)) (rm_wire r') = rm_wire r"
  using assms
proof (induction rids arbitrary: r)
  case (Cons rid rids)
  obtain q where q: "mget (rm_store r) rid = Some q" "rq_URL q \<noteq> None" using Cons.prems(4) [of rid] by auto
  obtain r1 q1 raw where s: "SendRequest e rid r mt = Some (None, r1, mt)" "rm_conn r1"
      "rm_currentCSeq r1 = rm_currentCSeq r + 1" "rm_wire r1 = rm_wire r @ [raw]"
      "rm_store r1 = mput rid q1 (rm_store r)"
      "mget (rq_Headers q1) ''CSeq'' = Some (itoa (rm_currentCSeq r + 1))"
      "requestString q1 (rq_Headers q1) = Some raw"
    using SendRequest_open [OF Cons.prems(1,2) q] by blast
  have "\<And>i. i \<in> set rids \<Longrightarrow> \<exists>q. mget (rm_store r1) i = Some q \<and> rq_URL q \<noteq> None"
    using Cons.prems(3,4) by (auto simp: s(5))
  with Cons.IH [OF s(2) Cons.prems(2)] Cons.prems(3) obtain r' where r':
      "sendAll e rids r1 mt = Some r'" "rm_currentCSeq r' = rm_currentCSeq r1 + int (length rids)"
      "length (rm_wire r') = length (rm_wire r1) + length rids"
      "\<forall>i. i \<notin> set rids \<longrightarrow> mget (rm_store r') i = mget (rm_store r1) i"
      "\<forall>i < length rids. \<exists>q. mget (rm_store r') (rids ! i) = Some q \<and>
         requestString q (rq_Headers q) = Some (rm_wire r' ! (length (rm_wire r1) + i)) \<and>
         mget (rq_Headers q) ''CSeq'' = Some (itoa (rm_currentCSeq r1 + int i + 1))"
      "take (length (rm_wire r1)) (rm_wire r') = rm_wire r1"
    by auto
  have wire: "rm_wire r' ! length (rm_wire r) = raw" "take (length (rm_wire r)) (rm_wire r') = rm_wire r"
    using r'(3,6) s(4)
    by (metis length_append_singleton lessI nth_append_length nth_take, metis append_eq_conv_conj append_take_drop_id append_assoc)
  have "\<exists>q. mget (rm_store r') ((rid # rids) ! i) = Some q \<and>
        requestString q (rq_Headers q) = Some (rm_wire r' ! (length (rm_wire r) + i)) \<and>
        mget (rq_Headers q) ''CSeq'' = Some (itoa (rm_currentCSeq r + int i + 1))"
    if "i < length (rid # rids)" for i
  proof (cases i)
    case 0
    have "mget (rm_store r') rid = Some q1" using r'(4) Cons.prems(3) s(5) by simp
    with 0 s(6,7) wire(1) show ?thesis by simp
  next
    case (Suc j)
    have "rm_currentCSeq r1 + int j + 1 = rm_currentCSeq r + int i + 1"
      "length (rm_wire r1) + j = length (rm_wire r) + i" using s(3,4) Suc by simp_all
    with r'(5) that Suc show ?thesis by (metis Suc_less_eq length_Cons nth_Cons_Suc)
  qed
  then show ?case using r' s wire by (auto simp: s(5))
qed simp

section \<open>Properties\<close>

text \<open>
  C31. The requests written to an open connection are numbered consecutively: the \<open>CSeq\<close> header of
  the \<open>i\<close>-th one follows the number of the one before, each is written as one piece, in order,
  and the text on the wire is the printed request with this header.
\<close>

theorem SendRequest_numbers:
  assumes "rm_conn r" "ne_write e = None" "distinct rids"
    "\<And>rid. rid \<in> set rids \<Longrightarrow> \<exists>q. mget (rm_store r) rid = Some q \<and> rq_URL q \<noteq> None"
  shows "\<exists>r'. sendAll e rids r mt = Some r' \<and> rm_currentCSeq r' = rm_currentCSeq r + int (length rids) \<and>
           length (rm_wire r') = length (rm_wire r) + length rids \<and>
           (\<forall>i < length rids. \<exists>q. mget (rm_store r') (rids ! i) = Some q \<and>
              requestString q (rq_Headers q) = Some (rm_wire r' ! (length (rm_wire r) + i)) \<and>
              mget (rq_Headers q) ''CSeq'' = Some (itoa (rm_currentCSeq r + int i + 1)))"
  using sendAll_numbers [OF assms, of mt] by blast

theorem SendRequest_numbers_witness:
  "\<exists>r r'. sendAll \<lparr>ne_serverDone = False, ne_dial = Inl [], ne_write = None, ne_writeData = None, ne_random = []\<rparr>
     [0, 1] r metrics_zero = Some r' \<and> rm_currentCSeq r' = 2"
proof -
  let ?q = "NewRequest ''OPTIONS'' (Some (rtsp_url ''cam'' ''/'')) []"
  let ?r = "(the (NewRemote True ''cam'' ''u'' ''p''))\<lparr>rm_conn := True, rm_store := [(0, ?q), (1, ?q)]\<rparr>"
  let ?e = "\<lparr>ne_serverDone = False, ne_dial = Inl [], ne_write = None, ne_writeData = None, ne_random = []\<rparr>"
  have "\<And>rid. rid \<in> set [0, 1] \<Longrightarrow> \<exists>q. mget (rm_store ?r) rid = Some q \<and> rq_URL q \<noteq> None"
    by (auto simp: NewRequest_def)
  then obtain r' where "sendAll ?e [0, 1] ?r metrics_zero = Some r'"
      "rm_currentCSeq r' = rm_currentCSeq ?r + int (length [0::nat, 1])"
    using SendRequest_numbers [of ?r ?e "[0, 1]" metrics_zero] by force
  moreover have "rm_currentCSeq ?r + int (length [0::nat, 1]) = 2" by (simp add: NewRemote_def)
  ultimately show ?thesis by metis
qed

text \<open>
  The credentials a request carries: without a realm, a user or a password the request is left
  alone; with a realm but no nonce it gets a Basic header that decodes to the user and the password;
  with a nonce and \<open>qop=auth\<close> it gets a Digest header with the request digest of RFC 2617 for its
  method and URL, and the nonce count goes up by one.
\<close>

theorem authorization_header:
  assumes "GetURL q = Some u"
  shows "(if dg_Realm d = [] \<or> dg_Username d = [] \<or> dg_Password d = [] then
            createAuthenticatorStr rnd d q = Some (q, d)
          else if dg_Nonce d = [] then
            \<exists>x. createAuthenticatorStr rnd d q = Some (setHeader ''Authorization'' (''Basic '' @ x) q, d) \<and>
                b64_decode x = dg_Username d @ '':'' @ dg_Password d
          else if equalFold (dg_Qop d) ''auth'' then
            \<exists>d'. d' = d\<lparr>dg_Nc := dg_Nc d + 1\<rparr> \<and>
              createAuthenticatorStr rnd d q =
                Some (setHeader ''Authorization''
                  (digestHeader d' (url_string u)
                     (request_digest d (NcString (dg_Nc d + 1)) (hex_encode rnd) (rq_Method q) (url_string u))
                     (NcString (dg_Nc d + 1)) (hex_encode rnd)) q, d')
          else True)"
  using assms by (auto simp: createAuthenticatorStr_def basicHeader_def b64_roundtrip ComputeResponse_auth)

theorem authorization_header_witness:
  "\<exists>q u d x. GetURL q = Some u \<and> createAuthenticatorStr [] d q = Some (setHeader ''Authorization'' (''Basic '' @ x) q, d) \<and>
     b64_decode x = ''admin:pw''"
proof -
  let ?q = "NewRequest ''OPTIONS'' (Some (rtsp_url ''cam'' ''/'')) []"
  let ?d = "NewDigest\<lparr>dg_Realm := ''cam'', dg_Username := ''admin'', dg_Password := ''pw''\<rparr>"
  obtain u where "GetURL ?q = Some u" by (simp add: GetURL_def NewRequest_def)
  with authorization_header [OF this, of ?d "[]"] show ?thesis
    by (intro exI [of _ ?q] exI [of _ u] exI [of _ ?d]) (simp add: NewDigest_def)
qed

end
