(* ===== verification/Rtsp_Stream.thy ===== *)
theory Rtsp_Stream
  imports Rtsp_Remote
begin

text \<open>
  A stream and its clients: \<open>stream.go\<close> without the connect loop and the read loop. The two signal
  channels of a stream are numbers; \<open>st_closed\<close> lists the closed ones, so that a client that
  waits on an old channel is in the model. \<open>st_loops\<close> counts the connect-loop goroutines that
  run. The current time is an argument. A panic is \<open>None\<close>.
\<close>

section \<open>State\<close>

datatype stream_state =
  StateDisconnected | StateConnecting | StateReady | StatePlaying | StateReconnecting | StateStopping | StateDestroyed

fun stateString :: "stream_state \<Rightarrow> string" where
  "stateString StateDisconnected = ''Disconnected''"
| "stateString StateConnecting = ''Connecting''"
| "stateString StateReady = ''Ready''"
| "stateString StatePlaying = ''Playing''"
| "stateString StateReconnecting = ''Reconnecting''"
| "stateString StateStopping = ''Stopping''"
| "stateString StateDestroyed = ''Destroyed''"

text \<open>The idle timer: not made yet, pending until a time, or stopped (or fired).\<close>

datatype timer = TimerNil | TimerArmed int | TimerStopped

record stream =
  st_Host :: string
  st_Username :: string
  st_Password :: string
  st_Path :: string
  st_SDP :: string
  st_Options :: string
  st_Server :: string
  st_state :: stream_state
  st_remote :: "remote option"
  st_clients :: "(nat, client_session) gomap"
  st_sessions :: "(string, session) gomap"
  st_lastClient :: "int option"
  st_idleTimer :: timer
  st_loopStarted :: bool
  st_loops :: nat
  st_PacketsForwarded :: "64 word"
  st_PacketsDropped :: "64 word"
  st_BytesForwarded :: "64 word"
  st_SessionBytesForwarded :: "64 word"
  st_ReconnectCount :: "64 word"
  st_LastReconnect :: "int option"
  st_ReconnectTotal :: int
  st_StartTime :: int
  st_SessionStartTime :: "int option"
  st_LastPktTime :: "int option"
  st_ctxDone :: bool
  st_IdleTimeout :: int
  st_readyCh :: nat
  st_sdpReadyCh :: nat
  st_chans :: nat
  st_closed :: "nat list"

definition NewStream :: "config \<Rightarrow> int \<Rightarrow> string \<Rightarrow> string \<Rightarrow> string \<Rightarrow> string \<Rightarrow> stream" where
  "NewStream cfg now host username password path =
     \<lparr> st_Host = host, st_Username = username, st_Password = password, st_Path = path,
       st_SDP = [], st_Options = [], st_Server = [], st_state = StateDisconnected, st_remote = None,
       st_clients = [], st_sessions = [], st_lastClient = None, st_idleTimer = TimerNil,
       st_loopStarted = False, st_loops = 0, st_PacketsForwarded = 0, st_PacketsDropped = 0,
       st_BytesForwarded = 0, st_SessionBytesForwarded = 0, st_ReconnectCount = 0,
       st_LastReconnect = None, st_ReconnectTotal = 0, st_StartTime = now, st_SessionStartTime = None,
       st_LastPktTime = None, st_ctxDone = False, st_IdleTimeout = IdleTimeout cfg,
       st_readyCh = 0, st_sdpReadyCh = 1, st_chans = 2, st_closed = [] \<rparr>"

text \<open>\<open>select \{ case <-ch: default: close(ch) \}\<close>: close the channel unless it is closed.\<close>

definition closeOnce :: "nat \<Rightarrow> stream \<Rightarrow> stream" where
  "closeOnce ch s = (if ch \<in> set (st_closed s) then s else s\<lparr>st_closed := ch # st_closed s\<rparr>)"

definition freshSignals :: "stream \<Rightarrow> stream" where
  "freshSignals s = s\<lparr>st_readyCh := st_chans s, st_sdpReadyCh := st_chans s + 1, st_chans := st_chans s + 2\<rparr>"

definition unsafeSetState :: "int \<Rightarrow> stream_state \<Rightarrow> stream \<Rightarrow> stream" where
  "unsafeSetState now state s =
     (if st_state s = StateDestroyed then s
      else if st_state s = state then s
      else
        (let s = (if (st_state s = StateDisconnected \<or> st_state s = StateReconnecting) \<and> state = StateConnecting
                  then freshSignals (closeOnce (st_sdpReadyCh s) (closeOnce (st_readyCh s) s)) else s);
             s = (if state = StatePlaying
                  then closeOnce (st_readyCh s) (s\<lparr>st_SessionStartTime := Some now, st_SessionBytesForwarded := 0\<rparr>)
                  else s);
             s = s\<lparr>st_state := state\<rparr>
         in if state = StateDestroyed then closeOnce (st_sdpReadyCh s) (closeOnce (st_readyCh s) s) else s))"

definition setState :: "int \<Rightarrow> stream_state \<Rightarrow> stream \<Rightarrow> stream" where
  "setState now state s = unsafeSetState now state s"

definition validTransition :: "stream_state \<Rightarrow> stream_state \<Rightarrow> bool" where
  "validTransition st to =
     (case st of
        StateDisconnected \<Rightarrow> to = StateConnecting \<or> to = StateDestroyed
      | StateConnecting \<Rightarrow> to = StatePlaying \<or> to = StateReconnecting \<or> to = StateStopping \<or> to = StateDestroyed \<or>
                           to = StateConnecting
      | StatePlaying \<Rightarrow> to = StateReconnecting \<or> to = StateStopping \<or> to = StateDestroyed \<or> to = StatePlaying
      | StateReconnecting \<Rightarrow> to = StatePlaying \<or> to = StateDisconnected \<or> to = StateStopping \<or> to = StateDestroyed \<or>
                             to = StateConnecting \<or> to = StateReconnecting
      | StateStopping \<Rightarrow> to = StateDisconnected \<or> to = StateDestroyed \<or> to = StateStopping
      | _ \<Rightarrow> False)"

definition transition :: "int \<Rightarrow> stream_state \<Rightarrow> stream \<Rightarrow> string option \<times> stream" where
  "transition now to s =
     (if st_state s = StateDestroyed then (Some ''stream is destroyed'', s)
      else if \<not> validTransition (st_state s) to then
        (Some (''invalid state transition: '' @ stateString (st_state s) @ '' -> '' @ stateString to), s)
      else (None, unsafeSetState now to s))"

section \<open>Clients and life cycle\<close>

definition startConnectLoop :: "stream \<Rightarrow> stream" where
  "startConnectLoop s =
     (if st_loopStarted s then s else s\<lparr>st_loopStarted := True, st_loops := st_loops s + 1\<rparr>)"

definition resetIdleTimer :: "int \<Rightarrow> stream \<Rightarrow> stream" where
  "resetIdleTimer now s = s\<lparr>st_idleTimer := TimerArmed (now + st_IdleTimeout s)\<rparr>"

definition stopIdleTimer :: "stream \<Rightarrow> stream" where
  "stopIdleTimer s = s\<lparr>st_idleTimer := (if st_idleTimer s = TimerNil then TimerNil else TimerStopped)\<rparr>"

definition AddClient :: "config \<Rightarrow> nat \<Rightarrow> string \<Rightarrow> stream \<Rightarrow> (client_session \<times> stream) option" where
  "AddClient cfg client sessionID s =
     (let s = stopIdleTimer s
      in case mget (st_clients s) client of
           Some cs \<Rightarrow> Some (cs, s)
         | None \<Rightarrow>
             (case NewClientSession cfg client sessionID of
                None \<Rightarrow> None
              | Some cs \<Rightarrow>
                  (let cs = ClientSession_Start cs;
                       s = s\<lparr>st_clients := mput client cs (st_clients s)\<rparr>;
                       s = (if st_state s = StateDisconnected then startConnectLoop s else s)
                   in Some (cs, s))))"

definition RemoveClient :: "int \<Rightarrow> nat \<Rightarrow> stream \<Rightarrow> stream option" where
  "RemoveClient now client s =
     (case (case mget (st_clients s) client of
              None \<Rightarrow> Some s
            | Some cs \<Rightarrow> map_option (\<lambda>_. s\<lparr>st_clients := mdel client (st_clients s)\<rparr>) (ClientSession_Stop cs)) of
        None \<Rightarrow> None
      | Some s \<Rightarrow>
          Some (if st_clients s = [] \<and> st_state s \<noteq> StateDestroyed
                then resetIdleTimer now (s\<lparr>st_lastClient := Some now\<rparr>) else s))"

definition Stream_Start :: "int \<Rightarrow> stream \<Rightarrow> stream" where
  "Stream_Start now s =
     (if st_state s \<noteq> StateDisconnected then s
      else
        (let s = (if st_clients s = [] then resetIdleTimer now s else s)
         in startConnectLoop (unsafeSetState now StateConnecting s)))"

text \<open>The sessions' \<open>Stop\<close> calls; \<open>None\<close> if one of them panics.\<close>

fun stopAll :: "('a \<Rightarrow> 'a option) \<Rightarrow> (string \<times> 'a) list \<Rightarrow> (string \<times> 'a) list option" where
  "stopAll f [] = Some []"
| "stopAll f ((k, x) # xs) =
     (case f x of None \<Rightarrow> None | Some y \<Rightarrow> map_option (\<lambda>ys. (k, y) # ys) (stopAll f xs))"

text \<open>A TEARDOWN for each session, then the connection is closed. The errors are ignored.\<close>

fun teardownAll :: "net_env \<Rightarrow> string \<Rightarrow> string list \<Rightarrow> remote \<Rightarrow> metrics \<Rightarrow> (remote \<times> metrics) option" where
  "teardownAll e path [] r mt = Some (Disconnect r, mt)"
| "teardownAll e path (sid # sids) r mt =
     (case SendTeardown e path sid r mt of
        None \<Rightarrow> None
      | Some (_, r, mt) \<Rightarrow> teardownAll e path sids r mt)"

text \<open>
  \<open>Stop\<close> and \<open>Destroy\<close> run in several critical sections; here are the sections, and their
  composition.
\<close>

definition Stop_take :: "stream \<Rightarrow> (string, session) gomap \<times> stream" where
  "Stop_take s = (st_sessions s, s\<lparr>st_sessions := []\<rparr>)"

definition Stop_teardown :: "net_env \<Rightarrow> string list \<Rightarrow> stream \<Rightarrow> metrics \<Rightarrow> (stream \<times> metrics) option" where
  "Stop_teardown e sids s mt =
     (case st_remote s of
        None \<Rightarrow> Some (s, mt)
      | Some r \<Rightarrow>
          map_option (\<lambda>(r, mt). (s\<lparr>st_remote := Some r\<rparr>, mt)) (teardownAll e (st_Path s) sids r mt))"

definition Stream_Stop :: "net_env \<Rightarrow> int \<Rightarrow> stream \<Rightarrow> metrics \<Rightarrow> (stream \<times> metrics) option" where
  "Stream_Stop e now s mt =
     (case transition now StateStopping s of
        (Some err, s) \<Rightarrow> Some (s, mt)
      | (None, s) \<Rightarrow>
          (case Stop_take s of
             (sessions, s) \<Rightarrow>
               (case Stop_teardown e (map fst sessions) s mt of
                  None \<Rightarrow> None
                | Some (s, mt) \<Rightarrow>
                    (case stopAll Session_Stop sessions of
                       None \<Rightarrow> None
                     | Some _ \<Rightarrow> Some (snd (transition now StateDisconnected s), mt)))))"

definition idleFire :: "net_env \<Rightarrow> int \<Rightarrow> stream \<Rightarrow> metrics \<Rightarrow> (stream \<times> metrics) option" where
  "idleFire e now s mt =
     (let s = s\<lparr>st_idleTimer := TimerStopped\<rparr>
      in if st_clients s = [] \<and> st_state s \<noteq> StateDestroyed then Stream_Stop e now s mt else Some (s, mt))"

text \<open>
  \<open>Destroy\<close> up to the call of the \<open>onDestroy\<close> callback, which the stream manager supplies; the wait
  for the connect loop that follows it changes nothing.
\<close>

definition Destroy_detach :: "stream \<Rightarrow> stream" where
  "Destroy_detach s =
     stopIdleTimer (s\<lparr>st_remote := None, st_clients := [], st_sessions := []\<rparr>)"

definition Stream_Destroy :: "net_env \<Rightarrow> int \<Rightarrow> stream \<Rightarrow> metrics \<Rightarrow> (stream \<times> metrics) option" where
  "Stream_Destroy e now s mt =
     (let s = (snd (transition now StateDestroyed s))\<lparr>st_ctxDone := True\<rparr>
      in case (case st_remote s of
                 None \<Rightarrow> Some mt
               | Some r \<Rightarrow> map_option snd (teardownAll e (st_Path s) (map fst (st_sessions s)) r mt)) of
           None \<Rightarrow> None
         | Some mt \<Rightarrow>
             (case (those (map (ClientSession_Stop \<circ> snd) (st_clients s)), stopAll Session_Stop (st_sessions s)) of
                (Some _, Some _) \<Rightarrow> Some (Destroy_detach s, mt)
              | _ \<Rightarrow> None))"

section \<open>Sessions and transports\<close>

definition MapChannel :: "nat \<Rightarrow> int \<Rightarrow> int \<Rightarrow> stream \<Rightarrow> stream" where
  "MapChannel client upstreamChan clientChan s =
     (case mget (st_clients s) client of
        None \<Rightarrow> s
      | Some cs \<Rightarrow>
          s\<lparr>st_clients := mput client (cs\<lparr>cs_channels := mput upstreamChan clientChan (cs_channels cs)\<rparr>) (st_clients s)\<rparr>)"

text \<open>
  \<open>Remote.LookupTransport\<close> searches the sessions in the order of the map; the result is the
  transport with the name of its session. \<open>Stream.LookupTransport\<close> needs a remote.
\<close>

fun searchTransport :: "string \<times> string \<times> string \<Rightarrow> (string \<times> session) list \<Rightarrow> (string \<times> transport) option" where
  "searchTransport key [] = None"
| "searchTransport key ((sid, session) # rest) =
     (case findTransport session key of
        Some t \<Rightarrow> Some (se_Session session, t)
      | None \<Rightarrow> searchTransport key rest)"

definition Stream_LookupTransport :: "string \<times> string \<times> string \<Rightarrow> stream \<Rightarrow> (string \<times> transport) option" where
  "Stream_LookupTransport key s =
     (if st_remote s = None then None else searchTransport key (st_sessions s))"

definition LookupSession :: "int list \<Rightarrow> string \<Rightarrow> stream \<Rightarrow> session \<times> stream" where
  "LookupSession args sessionID s =
     (let timeout = (case args of [] \<Rightarrow> 60 | t # _ \<Rightarrow> t)
      in case mget (st_sessions s) sessionID of
           Some session \<Rightarrow> (session, s)
         | None \<Rightarrow>
             (let session = NewSession sessionID timeout
              in (session, s\<lparr>st_sessions := mput sessionID session (st_sessions s)\<rparr>)))"

interpretation sessions: keyed_registry "\<lambda>s. mget (st_sessions s)" "LookupSession args" "\<lambda>s. True" for args
  by unfold_locales (auto simp: LookupSession_def Let_def split: option.splits)

definition GetState :: "stream \<Rightarrow> stream_state" where
  "GetState s = st_state s"

definition GetSDP :: "stream \<Rightarrow> string" where
  "GetSDP s = st_SDP s"

definition GetOptions :: "stream \<Rightarrow> string" where
  "GetOptions s = st_Options s"

definition ReadyCh :: "stream \<Rightarrow> nat" where
  "ReadyCh s = st_readyCh s"

definition SDPReadyCh :: "stream \<Rightarrow> nat" where
  "SDPReadyCh s = st_sdpReadyCh s"

definition isClosed :: "nat \<Rightarrow> stream \<Rightarrow> bool" where
  "isClosed ch s = (ch \<in> set (st_closed s))"

end
