(* ===== verification/Rtsp_Fanout.thy ===== *)
theory Rtsp_Fanout
  imports Rtsp_Stream
begin

text \<open>
  Fan-out: \<open>Stream.dispatch\<close> copies a packet of the camera into the queue of every client that has
  mapped its channel, with the channel byte rewritten. The lemmas show that each client gets
  exactly the packets of its channels, in order, up to the room in its queue, whatever happens to the
  other clients, and that the counters count the drops.
\<close>

section \<open>Definitions\<close>

text \<open>The copy for a client: byte 1 is the client's channel.\<close>

definition clientPacket :: "int \<Rightarrow> string \<Rightarrow> string" where
  "clientPacket clientChannel packet = packet[1 := to_byte clientChannel]"

text \<open>One target of the fan-out: the session afterwards, and whether the packet was dropped.\<close>

definition deliver :: "int \<Rightarrow> string \<Rightarrow> client_session \<Rightarrow> client_session \<times> bool" where
  "deliver channel packet cs =
     (case mget (cs_channels cs) channel of
        None \<Rightarrow> (cs, False)
      | Some clientChannel \<Rightarrow>
          (case Push (clientPacket clientChannel packet) cs of (cs', sent) \<Rightarrow> (cs', \<not> sent)))"

text \<open>
  The whole fan-out. Copying into a pooled buffer of the configured size panics when the packet is
  longer: \<open>None\<close>.
\<close>

definition hasTarget :: "int \<Rightarrow> stream \<Rightarrow> bool" where
  "hasTarget channel s = list_ex (\<lambda>(c, cs). mget (cs_channels cs) channel \<noteq> None) (st_clients s)"

definition dispatch :: "config \<Rightarrow> int \<Rightarrow> int \<Rightarrow> string \<Rightarrow> stream \<Rightarrow> metrics \<Rightarrow> (stream \<times> metrics) option" where
  "dispatch cfg now channel packet s mt =
     (if hasTarget channel s \<and> BufferSize cfg < int (length packet) then None
      else
        (let n = (of_nat (length packet) :: 64 word);
             drops = of_nat (length (filter (\<lambda>(c, cs). snd (deliver channel packet cs)) (st_clients s)))
         in Some
           (s\<lparr>st_PacketsForwarded := st_PacketsForwarded s + 1,
              st_BytesForwarded := st_BytesForwarded s + n,
              st_SessionBytesForwarded := st_SessionBytesForwarded s + n,
              st_LastPktTime := Some now,
              st_clients := map (\<lambda>(c, cs). (c, fst (deliver channel packet cs))) (st_clients s),
              st_PacketsDropped := st_PacketsDropped s + drops\<rparr>,
            mt\<lparr>m_PacketsForwarded := m_PacketsForwarded mt + 1,
               m_BytesForwarded := m_BytesForwarded mt + n,
               m_PacketsDropped := m_PacketsDropped mt + drops\<rparr>)))"

text \<open>The average queue depth of the report.\<close>

definition avgQueue :: "stream \<Rightarrow> nat" where
  "avgQueue s =
     (if st_clients s = [] then 0
      else sum_list (map (QueueDepth \<circ> snd) (st_clients s)) div length (st_clients s))"

section \<open>Lemmas\<close>

text \<open>Packets of the camera, one after the other.\<close>

fun dispatchAll :: "config \<Rightarrow> int \<Rightarrow> (int \<times> string) list \<Rightarrow> stream \<Rightarrow> metrics \<Rightarrow> (stream \<times> metrics) option" where
  "dispatchAll cfg now [] s mt = Some (s, mt)"
| "dispatchAll cfg now ((channel, packet) # ps) s mt =
     (case dispatch cfg now channel packet s mt of
        None \<Rightarrow> None
      | Some (s, mt) \<Rightarrow> dispatchAll cfg now ps s mt)"

text \<open>The packets a client is to get: those of its channels, rewritten.\<close>

definition addressed :: "client_session \<Rightarrow> (int \<times> string) list \<Rightarrow> string list" where
  "addressed cs ps =
     concat (map (\<lambda>(channel, packet).
       case mget (cs_channels cs) channel of None \<Rightarrow> [] | Some ch \<Rightarrow> [clientPacket ch packet]) ps)"

lemma map_of_map_snd: "map_of (map (\<lambda>(c, x). (c, f x)) m) k = map_option f (map_of m k)"
  by (induction m) auto

lemma deliver_fst:
  "fst (deliver channel packet cs) = fold (\<lambda>p cs. fst (Push p cs)) (addressed cs [(channel, packet)]) cs"
  by (simp add: deliver_def addressed_def split: option.split prod.split)

lemma deliver_keeps [simp]:
  "cs_channels (fst (deliver channel packet cs)) = cs_channels cs"
  "cs_client (fst (deliver channel packet cs)) = cs_client cs"
  "cs_active (fst (deliver channel packet cs)) = cs_active cs"
  "cs_quitClosed (fst (deliver channel packet cs)) = cs_quitClosed cs"
  by (simp_all add: deliver_fst addressed_def split: option.split)

lemma addressed_cong: "cs_channels cs = cs_channels cs' \<Longrightarrow> addressed cs = addressed cs'"
  by (intro ext) (simp add: addressed_def)

lemma dispatch_client:
  assumes "dispatch cfg now channel packet s mt = Some (s', mt')" "mget (st_clients s) c = Some cs"
  shows "mget (st_clients s') c = Some (fst (deliver channel packet cs))"
  using assms by (auto simp: dispatch_def Let_def map_of_map_snd split: if_splits)

lemma dispatchAll_client:
  assumes "dispatchAll cfg now ps s mt = Some (s', mt')" "mget (st_clients s) c = Some cs"
  shows "mget (st_clients s') c = Some (fold (\<lambda>p cs. fst (Push p cs)) (addressed cs ps) cs)"
  using assms
proof (induction ps arbitrary: s mt cs)
  case (Cons p ps)
  obtain channel packet where p: "p = (channel, packet)" by (cases p)
  from Cons.prems(1) obtain s1 mt1 where d: "dispatch cfg now channel packet s mt = Some (s1, mt1)"
    "dispatchAll cfg now ps s1 mt1 = Some (s', mt')" by (auto simp: p split: option.splits)
  let ?cs = "fst (deliver channel packet cs)"
  have "mget (st_clients s') c = Some (fold (\<lambda>p cs. fst (Push p cs)) (addressed ?cs ps) ?cs)"
    by (rule Cons.IH [OF d(2) dispatch_client [OF d(1) Cons.prems(2)]])
  moreover have "addressed ?cs ps = addressed cs ps" by (simp add: addressed_def)
  moreover have "addressed cs (p # ps) = addressed cs [(channel, packet)] @ addressed cs ps"
    by (simp add: addressed_def p)
  ultimately show ?case by (simp add: deliver_fst)
qed (simp add: addressed_def)

lemma dispatch_total:
  "\<forall>p \<in> set ps. int (length (snd p)) \<le> BufferSize cfg \<Longrightarrow> \<exists>s' mt'. dispatchAll cfg now ps s mt = Some (s', mt')"
proof (induction ps arbitrary: s mt)
  case (Cons p ps)
  then obtain s1 mt1 where "dispatch cfg now (fst p) (snd p) s mt = Some (s1, mt1)"
    by (auto simp: dispatch_def Let_def)
  with Cons show ?case by (cases p) auto
qed simp

lemma dispatch_count:
  assumes "dispatch cfg now channel packet s mt = Some (s', mt')"
  shows "st_PacketsForwarded s' = st_PacketsForwarded s + 1" "m_PacketsForwarded mt' = m_PacketsForwarded mt + 1"
    "st_BytesForwarded s' = st_BytesForwarded s + of_nat (length packet)"
    "st_PacketsDropped s' - st_PacketsDropped s = m_PacketsDropped mt' - m_PacketsDropped mt"
  using assms by (auto simp: dispatch_def Let_def split: if_splits)

section \<open>Properties\<close>



end
