(* ===== verification/Stream_System.thy ===== *)
theory Stream_System
  imports Rtsp_Fanout
begin

text \<open>
  A stream as a transition system: the critical sections that the goroutines of the proxy run on it,
  in any order, and its invariant. The lemmas show that every section preserves the invariant; the
  properties say what it means for the clients that wait on the stream's signals.
\<close>

section \<open>The steps of a stream\<close>

text \<open>
  Every critical section that some goroutine runs on the stream is a step: the public operations,
  the transitions of \<open>Stop\<close>, \<open>Destroy\<close> and the connect loop, the publication of the SDP, the end
  of a connect loop, the idle timer, the reconnect counters, and changes of the fields that the signals do not depend on.
\<close>

definition publishSDP :: "string \<Rightarrow> stream \<Rightarrow> stream" where
  "publishSDP sdp s = closeOnce (st_sdpReadyCh s) (s\<lparr>st_SDP := sdp\<rparr>)"

definition loopDone :: "stream \<Rightarrow> stream" where
  "loopDone s = s\<lparr>st_loopStarted := False, st_loops := st_loops s - 1\<rparr>"

inductive stream_step :: "config \<Rightarrow> stream \<Rightarrow> stream \<Rightarrow> bool" for cfg where
  step_transition: "stream_step cfg s (snd (transition now to s))"
| step_start: "stream_step cfg s (Stream_Start now s)"
| step_add: "AddClient cfg client sid s = Some (cs, s') \<Longrightarrow> stream_step cfg s s'"
| step_remove: "RemoveClient now client s = Some s' \<Longrightarrow> stream_step cfg s s'"
| step_sdp: "stream_step cfg s (publishSDP sdp s)"
| step_loop_done: "0 < st_loops s \<Longrightarrow> stream_step cfg s (loopDone s)"
| step_session: "stream_step cfg s (snd (LookupSession args sid s))"
| step_map: "stream_step cfg s (MapChannel client up down s)"
| step_remote: "stream_step cfg s (s\<lparr>st_remote := r\<rparr>)"
| step_sessions: "stream_step cfg s (s\<lparr>st_sessions := ss\<rparr>)"
| step_detach: "stream_step cfg s (Destroy_detach s)"
| step_dispatch: "dispatch cfg now channel packet s mt = Some (s', mt') \<Longrightarrow> stream_step cfg s s'"
| step_timer: "stream_step cfg s (s\<lparr>st_idleTimer := timer\<rparr>)"
| step_counters: "stream_step cfg s (s\<lparr>st_ReconnectCount := n, st_LastReconnect := t, st_ReconnectTotal := d\<rparr>)"
| step_cancel: "stream_step cfg s (s\<lparr>st_ctxDone := True\<rparr>)"
| step_fields: "stream_step cfg s (s\<lparr>st_SDP := sdp, st_Options := opts, st_Server := server\<rparr>)"

inductive_cases stream_stepE: "stream_step cfg s t"

definition new_stream :: "stream \<Rightarrow> bool" where
  "new_stream s = (\<exists>cfg now host username password path. s = NewStream cfg now host username password path)"

text \<open>The part of a stream that its signals and its loop flag depend on.\<close>

definition signals_shape :: "stream \<Rightarrow> bool" where
  "signals_shape s =
     (st_readyCh s < st_chans s \<and> st_sdpReadyCh s < st_chans s \<and> st_readyCh s \<noteq> st_sdpReadyCh s \<and>
      (\<forall>ch \<in> set (st_closed s). ch < st_chans s) \<and>
      (\<forall>ch < st_chans s. ch = st_readyCh s \<or> ch = st_sdpReadyCh s \<or> ch \<in> set (st_closed s)))"

definition signals_state :: "stream \<Rightarrow> bool" where
  "signals_state s =
     (st_state s \<noteq> StateReady \<and>
      (st_state s = StatePlaying \<longrightarrow> isClosed (st_readyCh s) s) \<and>
      (st_state s = StateConnecting \<longrightarrow> \<not> isClosed (st_readyCh s) s) \<and>
      (st_state s = StateDestroyed \<longrightarrow> isClosed (st_readyCh s) s \<and> isClosed (st_sdpReadyCh s) s))"

definition signals_inv :: "stream \<Rightarrow> bool" where
  "signals_inv s = (signals_shape s \<and> signals_state s)"

definition loop_inv :: "stream \<Rightarrow> bool" where
  "loop_inv s = (st_loops s = (if st_loopStarted s then 1 else 0))"

definition clients_inv :: "stream \<Rightarrow> bool" where
  "clients_inv s = (gomap_wf (st_clients s) \<and>
     (\<forall>(c, cs) \<in> set (st_clients s). cs_client cs = c \<and> cs_active cs \<and> \<not> cs_quitClosed cs))"

definition stream_inv :: "stream \<Rightarrow> bool" where
  "stream_inv s = (signals_inv s \<and> loop_inv s \<and> clients_inv s)"

text \<open>The fields that a step may change without touching the invariant.\<close>

definition same_core :: "stream \<Rightarrow> stream \<Rightarrow> bool" where
  "same_core s t =
     (st_readyCh t = st_readyCh s \<and> st_sdpReadyCh t = st_sdpReadyCh s \<and> st_chans t = st_chans s \<and>
      st_closed t = st_closed s \<and> st_state t = st_state s)"

lemma signals_inv_same: "same_core s t \<Longrightarrow> signals_inv s \<Longrightarrow> signals_inv t"
  by (simp add: same_core_def signals_inv_def signals_shape_def signals_state_def isClosed_def)

lemma closeOnce_simps [simp]:
  "st_readyCh (closeOnce ch s) = st_readyCh s" "st_sdpReadyCh (closeOnce ch s) = st_sdpReadyCh s"
  "st_chans (closeOnce ch s) = st_chans s" "st_state (closeOnce ch s) = st_state s"
  "set (st_closed (closeOnce ch s)) = insert ch (set (st_closed s))"
  "st_loops (closeOnce ch s) = st_loops s" "st_loopStarted (closeOnce ch s) = st_loopStarted s"
  "st_clients (closeOnce ch s) = st_clients s"
  by (auto simp: closeOnce_def)

lemma freshSignals_simps [simp]:
  "st_readyCh (freshSignals s) = st_chans s" "st_sdpReadyCh (freshSignals s) = st_chans s + 1"
  "st_chans (freshSignals s) = st_chans s + 2" "st_state (freshSignals s) = st_state s"
  "st_closed (freshSignals s) = st_closed s"
  "st_loops (freshSignals s) = st_loops s" "st_loopStarted (freshSignals s) = st_loopStarted s"
  "st_clients (freshSignals s) = st_clients s"
  by (simp_all add: freshSignals_def)

lemma unsafeSetState_keeps [simp]:
  "st_loops (unsafeSetState now to s) = st_loops s"
  "st_loopStarted (unsafeSetState now to s) = st_loopStarted s"
  "st_clients (unsafeSetState now to s) = st_clients s"
  by (simp_all add: unsafeSetState_def Let_def)

lemma unsafeSetState_state:
  "st_state (unsafeSetState now to s) = (if st_state s = StateDestroyed then StateDestroyed else to)"
  by (simp add: unsafeSetState_def Let_def)

lemma isClosed_close [simp]: "isClosed ch (closeOnce ch' s) \<longleftrightarrow> ch = ch' \<or> isClosed ch s"
  by (simp add: isClosed_def)

lemma isClosed_fresh [simp]: "isClosed ch (freshSignals s) = isClosed ch s"
  by (simp add: isClosed_def)

lemma isClosed_update [simp]:
  "isClosed ch (s\<lparr>st_state := x\<rparr>) = isClosed ch s"
  "isClosed ch (s\<lparr>st_SessionStartTime := t, st_SessionBytesForwarded := b\<rparr>) = isClosed ch s"
  "isClosed ch (s\<lparr>st_SDP := sdp\<rparr>) = isClosed ch s"
  by (simp_all add: isClosed_def)

lemma shape_update [simp]:
  "signals_shape (s\<lparr>st_state := x\<rparr>) = signals_shape s"
  "signals_shape (s\<lparr>st_SessionStartTime := t, st_SessionBytesForwarded := b\<rparr>) = signals_shape s"
  "signals_shape (s\<lparr>st_SDP := sdp\<rparr>) = signals_shape s"
  by (simp_all add: signals_shape_def)

lemma shape_close [simp]: "signals_shape s \<Longrightarrow> ch < st_chans s \<Longrightarrow> signals_shape (closeOnce ch s)"
  by (auto simp: signals_shape_def)

lemma shape_bounds: "signals_shape s \<Longrightarrow> st_readyCh s < st_chans s \<and> st_sdpReadyCh s < st_chans s"
  by (simp add: signals_shape_def)

lemma shape_fresh:
  assumes "signals_shape s" "isClosed (st_readyCh s) s" "isClosed (st_sdpReadyCh s) s"
  shows "signals_shape (freshSignals s)" "\<not> isClosed (st_chans s) s"
  using assms by (auto simp: signals_shape_def isClosed_def less_Suc_eq)

lemma signals_inv_set:
  assumes "signals_inv s" "validTransition (st_state s) to"
  shows "signals_inv (unsafeSetState now to s)"
proof (cases "st_state s = StateDestroyed \<or> st_state s = to")
  case True
  then show ?thesis using assms(1) by (auto simp: unsafeSetState_def)
next
  case False
  have to: "to \<noteq> StateReady" using assms(2) by (auto simp: validTransition_def split: stream_state.splits)
  have shape: "signals_shape s" using assms(1) by (simp add: signals_inv_def)
  note bounds = shape_bounds [OF shape]
  show ?thesis
  proof (cases "to = StateConnecting")
    case True
    let ?t = "closeOnce (st_sdpReadyCh s) (closeOnce (st_readyCh s) s)"
    have t: "signals_shape ?t" "isClosed (st_readyCh ?t) ?t" "isClosed (st_sdpReadyCh ?t) ?t"
      using shape bounds by simp_all
    from True False assms(2) have "st_state s = StateDisconnected \<or> st_state s = StateReconnecting"
      by (auto simp: validTransition_def split: stream_state.splits)
    with True have "unsafeSetState now to s = (freshSignals ?t)\<lparr>st_state := StateConnecting\<rparr>"
      by (auto simp: unsafeSetState_def Let_def)
    moreover have "signals_shape (freshSignals ?t)" "\<not> isClosed (st_chans s) ?t"
      using shape_fresh [OF t] by simp_all
    ultimately show ?thesis by (simp add: signals_inv_def signals_state_def)
  next
    case nc: False
    then have "unsafeSetState now to s =
      (let s1 = (if to = StatePlaying
                 then closeOnce (st_readyCh s) (s\<lparr>st_SessionStartTime := Some now, st_SessionBytesForwarded := 0\<rparr>)
                 else s);
           s2 = s1\<lparr>st_state := to\<rparr>
       in if to = StateDestroyed then closeOnce (st_sdpReadyCh s2) (closeOnce (st_readyCh s2) s2) else s2)"
      using False by (simp add: unsafeSetState_def)
    with nc to shape bounds show ?thesis
      by (cases to) (simp_all add: signals_inv_def signals_state_def)
  qed
qed

lemma signals_inv_transition: "signals_inv s \<Longrightarrow> signals_inv (snd (transition now to s))"
  by (simp add: transition_def signals_inv_set)

lemma signals_inv_start: "signals_inv s \<Longrightarrow> signals_inv (Stream_Start now s)"
proof -
  assume inv: "signals_inv s"
  let ?s = "if st_clients s = [] then resetIdleTimer now s else s"
  have core: "same_core s ?s" "st_state ?s = st_state s" by (simp_all add: same_core_def resetIdleTimer_def)
  have "signals_inv (unsafeSetState now StateConnecting ?s)" if "st_state s = StateDisconnected"
    using signals_inv_set [OF signals_inv_same [OF core(1) inv], of StateConnecting now] that core(2)
    by (simp add: validTransition_def)
  moreover have "signals_inv t \<Longrightarrow> signals_inv (startConnectLoop t)" for t
    by (rule signals_inv_same [of t]) (simp_all add: same_core_def startConnectLoop_def)
  ultimately show ?thesis using inv by (simp add: Stream_Start_def Let_def)
qed

lemma signals_inv_sdp: "signals_inv s \<Longrightarrow> signals_inv (publishSDP sdp s)"
proof -
  assume inv: "signals_inv s"
  then have "signals_shape s" by (simp add: signals_inv_def)
  then have "signals_shape (publishSDP sdp s)" "st_readyCh s \<noteq> st_sdpReadyCh s"
    using shape_bounds [of s] by (simp_all add: publishSDP_def) (simp add: signals_shape_def)
  with inv show ?thesis by (simp add: signals_inv_def signals_state_def publishSDP_def)
qed

lemma AddClient_core: "AddClient cfg client sid s = Some (cs, s') \<Longrightarrow> same_core s s'"
  by (auto simp: AddClient_def same_core_def stopIdleTimer_def startConnectLoop_def Let_def split: option.splits if_splits)

lemma RemoveClient_core: "RemoveClient now client s = Some s' \<Longrightarrow> same_core s s'"
  by (auto simp: RemoveClient_def same_core_def resetIdleTimer_def split: option.splits if_splits)

lemma dispatch_core: "dispatch cfg now channel packet s mt = Some (s', mt') \<Longrightarrow> same_core s s'"
  by (auto simp: dispatch_def same_core_def Let_def split: if_splits)

lemma other_cores:
  "same_core s (snd (LookupSession args sid s))" "same_core s (MapChannel client up down s)"
  "same_core s (loopDone s)" "same_core s (Destroy_detach s)" "same_core s (s\<lparr>st_remote := r\<rparr>)"
  "same_core s (s\<lparr>st_sessions := ss\<rparr>)" "same_core s (s\<lparr>st_ctxDone := True\<rparr>)"
  "same_core s (s\<lparr>st_idleTimer := timer\<rparr>)"
  "same_core s (s\<lparr>st_ReconnectCount := n, st_LastReconnect := t, st_ReconnectTotal := d\<rparr>)"
  "same_core s (s\<lparr>st_SDP := sdp, st_Options := opts, st_Server := server\<rparr>)"
  by (simp_all add: same_core_def LookupSession_def MapChannel_def loopDone_def Destroy_detach_def stopIdleTimer_def
      Let_def split: option.split)

lemma signals_inv_step: "signals_inv s \<Longrightarrow> stream_step cfg s t \<Longrightarrow> signals_inv t"
  by (erule stream_stepE)
    (simp_all only: signals_inv_transition signals_inv_start signals_inv_sdp,
      (erule (1) signals_inv_same [OF AddClient_core] signals_inv_same [OF RemoveClient_core]
         signals_inv_same [OF dispatch_core]
       | (rule signals_inv_same, rule other_cores, assumption))+)

subsection \<open>One connect loop\<close>

lemma loop_inv_add: "loop_inv s \<Longrightarrow> AddClient cfg client sid s = Some (cs, s') \<Longrightarrow> loop_inv s'"
  by (auto simp: loop_inv_def AddClient_def stopIdleTimer_def startConnectLoop_def Let_def split: option.splits if_splits)

lemma loop_inv_remove: "loop_inv s \<Longrightarrow> RemoveClient now client s = Some s' \<Longrightarrow> loop_inv s'"
  by (auto simp: loop_inv_def RemoveClient_def resetIdleTimer_def split: option.splits if_splits)

lemma loop_inv_start: "loop_inv s \<Longrightarrow> loop_inv (Stream_Start now s)"
  by (simp add: loop_inv_def Stream_Start_def resetIdleTimer_def startConnectLoop_def Let_def)

lemma loop_inv_done: "loop_inv s \<Longrightarrow> loop_inv (loopDone s)"
  by (simp add: loop_inv_def loopDone_def)

lemma loop_fields:
  "loop_inv s \<Longrightarrow> st_loops t = st_loops s \<Longrightarrow> st_loopStarted t = st_loopStarted s \<Longrightarrow> loop_inv t"
  by (simp add: loop_inv_def)

lemma same_loops:
  "st_loops (snd (transition now to s)) = st_loops s" "st_loopStarted (snd (transition now to s)) = st_loopStarted s"
  "st_loops (publishSDP sdp s) = st_loops s" "st_loopStarted (publishSDP sdp s) = st_loopStarted s"
  "st_loops (snd (LookupSession args sid s)) = st_loops s" "st_loopStarted (snd (LookupSession args sid s)) = st_loopStarted s"
  "st_loops (MapChannel client up down s) = st_loops s" "st_loopStarted (MapChannel client up down s) = st_loopStarted s"
  "st_loops (Destroy_detach s) = st_loops s" "st_loopStarted (Destroy_detach s) = st_loopStarted s"
  by (simp_all add: transition_def publishSDP_def LookupSession_def MapChannel_def Destroy_detach_def stopIdleTimer_def
      Let_def split: option.split)

lemma dispatch_loops:
  "dispatch cfg now channel packet s mt = Some (s', mt') \<Longrightarrow> st_loops s' = st_loops s \<and> st_loopStarted s' = st_loopStarted s"
  by (auto simp: dispatch_def Let_def split: if_splits)

lemma loop_inv_step:
  assumes "loop_inv s" "stream_step cfg s t"
  shows "loop_inv t"
  using assms(2)
proof cases
  case (step_add client sid cs)
  then show ?thesis by (rule loop_inv_add [OF assms(1)])
next
  case (step_remove now client)
  then show ?thesis by (rule loop_inv_remove [OF assms(1)])
next
  case (step_dispatch now channel packet mt mt')
  then show ?thesis using loop_fields [OF assms(1)] dispatch_loops by blast
qed (use assms(1) in \<open>simp_all only: loop_inv_start loop_inv_done\<close>,
     (rule loop_fields [OF assms(1)]; simp add: same_loops)+)

subsection \<open>The clients\<close>

definition client_ok :: "nat \<Rightarrow> client_session \<Rightarrow> bool" where
  "client_ok c cs = (cs_client cs = c \<and> cs_active cs \<and> \<not> cs_quitClosed cs)"

lemma gomap_ball:
  "gomap_wf m \<Longrightarrow> (\<forall>(k, v) \<in> set m. P k v) \<longleftrightarrow> (\<forall>k v. mget m k = Some v \<longrightarrow> P k v)"
  by (simp add: map_of_eq_Some_iff Ball_def)

lemma clients_inv_get:
  "clients_inv s \<longleftrightarrow> gomap_wf (st_clients s) \<and> (\<forall>c cs. mget (st_clients s) c = Some cs \<longrightarrow> client_ok c cs)"
  by (simp add: clients_inv_def client_ok_def gomap_ball cong: conj_cong)

lemma clients_inv_fields: "clients_inv s \<Longrightarrow> st_clients t = st_clients s \<Longrightarrow> clients_inv t"
  by (simp add: clients_inv_def)

lemma clients_inv_put:
  "clients_inv s \<Longrightarrow> client_ok c cs \<Longrightarrow> st_clients t = mput c cs (st_clients s) \<Longrightarrow> clients_inv t"
  by (auto simp: clients_inv_get)

lemma clients_inv_del: "clients_inv s \<Longrightarrow> st_clients t = mdel c (st_clients s) \<Longrightarrow> clients_inv t"
  by (auto simp: clients_inv_get split: if_splits)

lemma clients_inv_add:
  assumes "clients_inv s" "AddClient cfg client sid s = Some (cs, s')"
  shows "clients_inv s'"
proof (cases "mget (st_clients s) client")
  case None
  then obtain cs0 where cs0: "NewClientSession cfg client sid = Some cs0" "cs = ClientSession_Start cs0"
      "st_clients s' = mput client cs (st_clients s)"
    using assms(2) by (auto simp: AddClient_def stopIdleTimer_def startConnectLoop_def Let_def split: option.splits if_splits)
  have "client_ok client cs"
    using cs0(1,2) by (auto simp: NewClientSession_def ClientSession_Start_def client_ok_def split: if_splits)
  then show ?thesis by (rule clients_inv_put [OF assms(1) _ cs0(3)])
next
  case (Some cs0)
  with assms(2) have "st_clients s' = st_clients s" by (auto simp: AddClient_def stopIdleTimer_def)
  then show ?thesis by (rule clients_inv_fields [OF assms(1)])
qed

lemma clients_inv_remove:
  assumes "clients_inv s" "RemoveClient now client s = Some s'"
  shows "clients_inv s'"
proof -
  have "st_clients s' = st_clients s \<or> st_clients s' = mdel client (st_clients s)"
    using assms(2) by (auto simp: RemoveClient_def resetIdleTimer_def split: option.splits if_splits)
  then show ?thesis using clients_inv_fields [OF assms(1)] clients_inv_del [OF assms(1)] by blast
qed

lemma clients_inv_dispatch:
  assumes "clients_inv s" "dispatch cfg now channel packet s mt = Some (s', mt')"
  shows "clients_inv s'"
proof -
  have cl: "st_clients s' = map (\<lambda>(c, cs). (c, fst (deliver channel packet cs))) (st_clients s)"
    using assms(2) by (auto simp: dispatch_def Let_def split: if_splits)
  have "map fst (st_clients s') = map fst (st_clients s)"
    unfolding cl by (induction "st_clients s") auto
  moreover have "mget (st_clients s') c = map_option (\<lambda>cs. fst (deliver channel packet cs)) (mget (st_clients s) c)" for c
    unfolding cl by (rule map_of_map_snd)
  ultimately show ?thesis using assms(1) by (auto simp: clients_inv_get client_ok_def)
qed

lemma clients_inv_map: "clients_inv s \<Longrightarrow> clients_inv (MapChannel client up down s)"
proof (cases "mget (st_clients s) client")
  case (Some cs)
  assume inv: "clients_inv s"
  let ?cs = "cs\<lparr>cs_channels := mput up down (cs_channels cs)\<rparr>"
  have "client_ok client ?cs" using inv Some by (auto simp: clients_inv_get client_ok_def)
  from clients_inv_put [OF inv this] show ?thesis using Some by (simp add: MapChannel_def)
qed (simp add: MapChannel_def)

lemma clients_inv_detach: "clients_inv (Destroy_detach s)"
  by (simp add: clients_inv_def Destroy_detach_def stopIdleTimer_def)

lemma same_clients:
  "st_clients (snd (transition now to s)) = st_clients s" "st_clients (Stream_Start now s) = st_clients s"
  "st_clients (publishSDP sdp s) = st_clients s" "st_clients (snd (LookupSession args sid s)) = st_clients s"
  "st_clients (loopDone s) = st_clients s"
  by (simp_all add: transition_def Stream_Start_def publishSDP_def LookupSession_def loopDone_def resetIdleTimer_def
      startConnectLoop_def Let_def split: option.split)

lemma clients_inv_step:
  assumes "clients_inv s" "stream_step cfg s t"
  shows "clients_inv t"
  using assms(2)
proof cases
  case (step_add client sid cs)
  then show ?thesis by (rule clients_inv_add [OF assms(1)])
next
  case (step_remove now client)
  then show ?thesis by (rule clients_inv_remove [OF assms(1)])
next
  case (step_dispatch now channel packet mt mt')
  then show ?thesis by (rule clients_inv_dispatch [OF assms(1)])
qed (use assms(1) in \<open>simp_all only: clients_inv_map clients_inv_detach\<close>,
     (rule clients_inv_fields [OF assms(1)], simp add: same_clients)+)

interpretation streams: inductive_invariant new_stream "stream_step cfg" stream_inv for cfg
proof
  show "stream_inv s" if "new_stream s" for s
    using that
    by (auto simp: new_stream_def NewStream_def stream_inv_def signals_inv_def signals_shape_def signals_state_def
        isClosed_def loop_inv_def clients_inv_def less_2_cases_iff)
  show "stream_inv s \<Longrightarrow> stream_step cfg s t \<Longrightarrow> stream_inv t" for s t
    by (auto simp: stream_inv_def intro: signals_inv_step loop_inv_step clients_inv_step)
qed

section \<open>Stop and Destroy are sequences of steps\<close>

text \<open>A step that neither starts nor ends a connect loop.\<close>

definition quiet_step :: "config \<Rightarrow> stream \<Rightarrow> stream \<Rightarrow> bool" where
  "quiet_step cfg s t = (stream_step cfg s t \<and> st_loops t = st_loops s)"

lemma quiet_steps:
  "quiet_step cfg s (snd (transition now to s))" "quiet_step cfg s (s\<lparr>st_sessions := ss\<rparr>)"
  "quiet_step cfg s (s\<lparr>st_remote := r\<rparr>)" "quiet_step cfg s (s\<lparr>st_idleTimer := timer\<rparr>)"
  "quiet_step cfg s (s\<lparr>st_ctxDone := True\<rparr>)" "quiet_step cfg s (Destroy_detach s)"
  by (simp_all add: quiet_step_def stream_step.intros same_loops)

lemma Stop_teardown_step: "Stop_teardown e sids s mt = Some (s', mt') \<Longrightarrow> (quiet_step cfg)\<^sup>*\<^sup>* s s'"
  by (auto simp: Stop_teardown_def intro: r_into_rtranclp quiet_steps split: option.splits)

lemma Stream_Stop_steps:
  assumes "Stream_Stop e now s mt = Some (s', mt')"
  shows "(quiet_step cfg)\<^sup>*\<^sup>* s s'"
proof -
  let ?s1 = "snd (transition now StateStopping s)"
  have s1: "(quiet_step cfg)\<^sup>*\<^sup>* s ?s1" by (intro r_into_rtranclp quiet_steps)
  show ?thesis
  proof (cases "fst (transition now StateStopping s)")
    case None
    then obtain s3 where s3: "Stop_teardown e (map fst (st_sessions ?s1)) (?s1\<lparr>st_sessions := []\<rparr>) mt = Some (s3, mt')"
        "s' = snd (transition now StateDisconnected s3)"
      using assms by (auto simp: Stream_Stop_def Stop_take_def split: option.splits prod.splits)
    have "(quiet_step cfg)\<^sup>*\<^sup>* ?s1 (?s1\<lparr>st_sessions := []\<rparr>)" by (intro r_into_rtranclp quiet_steps)
    moreover have "(quiet_step cfg)\<^sup>*\<^sup>* s3 s'"
      unfolding s3(2) by (intro r_into_rtranclp quiet_steps)
    ultimately show ?thesis using s1 Stop_teardown_step [OF s3(1)] by (meson rtranclp_trans)
  next
    case (Some err)
    then have "s' = ?s1" using assms by (auto simp: Stream_Stop_def split: prod.splits)
    with s1 show ?thesis by simp
  qed
qed

lemma idleFire_steps:
  assumes "idleFire e now s mt = Some (s', mt')"
  shows "(quiet_step cfg)\<^sup>*\<^sup>* s s'"
proof -
  have fire: "quiet_step cfg s (s\<lparr>st_idleTimer := TimerStopped\<rparr>)" by (rule quiet_steps)
  show ?thesis
  proof (cases "st_clients s = [] \<and> st_state s \<noteq> StateDestroyed")
    case True
    with assms have "Stream_Stop e now (s\<lparr>st_idleTimer := TimerStopped\<rparr>) mt = Some (s', mt')"
      by (simp add: idleFire_def)
    from converse_rtranclp_into_rtranclp [OF fire Stream_Stop_steps [OF this]] show ?thesis .
  next
    case False
    with assms have "s' = s\<lparr>st_idleTimer := TimerStopped\<rparr>" by (auto simp: idleFire_def)
    then show ?thesis using fire by simp
  qed
qed

lemma Stream_Destroy_eq:
  assumes "Stream_Destroy e now s mt = Some (s', mt')"
  shows "s' = Destroy_detach ((snd (transition now StateDestroyed s))\<lparr>st_ctxDone := True\<rparr>)"
  using assms unfolding Stream_Destroy_def Let_def
  by (simp only: split: option.splits prod.splits) simp_all

lemma Stream_Destroy_steps:
  assumes "Stream_Destroy e now s mt = Some (s', mt')"
  shows "(quiet_step cfg)\<^sup>*\<^sup>* s s'"
proof -
  let ?s1 = "snd (transition now StateDestroyed s)"
  have "quiet_step cfg s ?s1" by (rule quiet_steps)
  moreover have "quiet_step cfg ?s1 (?s1\<lparr>st_ctxDone := True\<rparr>)" by (rule quiet_steps)
  moreover have "quiet_step cfg (?s1\<lparr>st_ctxDone := True\<rparr>) s'"
    unfolding Stream_Destroy_eq [OF assms] by (rule quiet_steps)
  ultimately show ?thesis by (meson r_into_rtranclp rtranclp.rtrancl_into_rtrancl)
qed

section \<open>Properties\<close>

lemma new_stream_NewStream [simp, intro]: "new_stream (NewStream cfg now host username password path)"
  unfolding new_stream_def by blast

lemma stream_init: "reach new_stream (stream_step cfg) (NewStream c now host u p path)"
  by (rule reach_init) blast

lemma stream_next:
  "reach new_stream (stream_step cfg) s \<Longrightarrow> stream_step cfg s t \<Longrightarrow> reach new_stream (stream_step cfg) t"
  by (rule reach_step)

text \<open>A stream that was started and has begun to play.\<close>

lemma reach_playing:
  "reach new_stream (stream_step cfg) (snd (transition now StatePlaying (Stream_Start now (NewStream c now host u p path))))"
  by (rule stream_next [OF stream_next [OF stream_init stream_step.step_start] stream_step.step_transition])

lemma started_connecting: "st_state (Stream_Start now (NewStream c now host u p path)) = StateConnecting"
  by (simp add: Stream_Start_def NewStream_def resetIdleTimer_def startConnectLoop_def unsafeSetState_state Let_def)

text \<open>
  C8. The signals of a stream, in every state that its goroutines can bring about: while it plays the
  ready channel is closed, so that nobody waits; while it connects the ready channel is open, so that
  nobody passes early; once it is destroyed every channel it ever handed out is closed, so that no
  client waits for ever. The state \<open>Ready\<close> is never entered.
\<close>

theorem stream_signals:
  assumes "reach new_stream (stream_step cfg) s"
  shows "(st_state s = StatePlaying \<longrightarrow> isClosed (ReadyCh s) s) \<and>
         (st_state s = StateConnecting \<longrightarrow> \<not> isClosed (ReadyCh s) s) \<and>
         (st_state s = StateDestroyed \<longrightarrow> (\<forall>ch < st_chans s. isClosed ch s)) \<and>
         st_state s \<noteq> StateReady"
proof -
  have inv: "signals_shape s" "signals_state s"
    using streams.reach_inv [OF assms] by (simp_all add: stream_inv_def signals_inv_def)
  then have "st_state s = StateDestroyed \<longrightarrow> (\<forall>ch < st_chans s. isClosed ch s)"
    by (auto simp: signals_shape_def signals_state_def isClosed_def)
  with inv(2) show ?thesis by (simp add: signals_state_def ReadyCh_def)
qed

theorem stream_signals_witness:
  "\<exists>s. reach new_stream (stream_step DefaultConfig) s \<and> st_state s = StatePlaying \<and> isClosed (ReadyCh s) s"
proof -
  let ?s0 = "NewStream DefaultConfig 0 ''cam'' [] [] ''/''"
  let ?s1 = "Stream_Start 0 ?s0"
  let ?s2 = "snd (transition 0 StatePlaying ?s1)"
  have "st_state ?s2 = StatePlaying"
    by (simp add: transition_def validTransition_def unsafeSetState_state started_connecting)
  with stream_signals [OF reach_playing] reach_playing show ?thesis by blast
qed

text \<open>
  C22. Destroyed is final: from a destroyed stream no sequence of operations leads to another state,
  and every transition is refused.
\<close>

theorem destroyed_final:
  assumes "st_state s = StateDestroyed" "(stream_step cfg)\<^sup>*\<^sup>* s t"
  shows "st_state t = StateDestroyed \<and> transition now to t = (Some ''stream is destroyed'', t)"
proof -
  have "st_state t' = StateDestroyed" if "stream_step cfg s' t'" "st_state s' = StateDestroyed" for s' t'
    using that
  proof cases
    case (step_add client sid cs)
    then show ?thesis using AddClient_core that(2) by (auto simp: same_core_def)
  next
    case (step_remove now client)
    then show ?thesis using RemoveClient_core that(2) by (auto simp: same_core_def)
  next
    case (step_dispatch now channel packet mt mt')
    then show ?thesis using dispatch_core that(2) by (auto simp: same_core_def)
  qed (use that(2) other_cores [of s', unfolded same_core_def] in
         \<open>simp_all add: transition_def Stream_Start_def publishSDP_def\<close>)
  with assms(2,1) have "st_state t = StateDestroyed"
    by (induction rule: rtranclp_induct) auto
  then show ?thesis by (simp add: transition_def)
qed

theorem destroyed_final_witness:
  "st_state (Stream_Start 1 (snd (transition 0 StateDestroyed (NewStream DefaultConfig 0 ''cam'' [] [] ''/'')))) = StateDestroyed"
proof -
  let ?s = "snd (transition 0 StateDestroyed (NewStream DefaultConfig 0 ''cam'' [] [] ''/''))"
  have "st_state ?s = StateDestroyed"
    by (simp add: transition_def validTransition_def unsafeSetState_state NewStream_def)
  moreover have "(stream_step DefaultConfig)\<^sup>*\<^sup>* ?s (Stream_Start 1 ?s)"
    by (intro r_into_rtranclp stream_step.step_start)
  ultimately show ?thesis using destroyed_final by blast
qed

lemma RemoveClient_removes:
  assumes "clients_inv s"
  shows "\<exists>s'. RemoveClient now c s = Some s' \<and> st_clients s' = mdel c (st_clients s) \<and>
       (st_clients s' = [] \<and> st_state s \<noteq> StateDestroyed \<longrightarrow>
          st_idleTimer s' = TimerArmed (now + st_IdleTimeout s))"
proof (cases "mget (st_clients s) c")
  case None
  then have "mdel c (st_clients s) = st_clients s" by (simp add: map_of_eq_None_iff delete_id)
  with None show ?thesis by (simp add: RemoveClient_def resetIdleTimer_def)
next
  case (Some cs)
  then have "ClientSession_Stop cs \<noteq> None"
    using assms by (simp add: clients_inv_get client_ok_def ClientSession_Stop_def)
  with Some show ?thesis by (auto simp: RemoveClient_def resetIdleTimer_def)
qed

text \<open>
  C21. At most one connect loop runs for a stream, whatever clients come and go and however often
  \<open>Start\<close> is called, and removing a client never panics: it is gone afterwards, the others are
  untouched, and if it was the last one the idle timer runs.
\<close>

theorem one_loop_and_removal:
  assumes "reach new_stream (stream_step cfg) s"
  shows "st_loops s \<le> 1 \<and>
    (\<exists>s'. RemoveClient now c s = Some s' \<and> mget (st_clients s') c = None \<and>
       (\<forall>c'. c' \<noteq> c \<longrightarrow> mget (st_clients s') c' = mget (st_clients s) c') \<and>
       (st_clients s' = [] \<and> st_state s \<noteq> StateDestroyed \<longrightarrow>
          st_idleTimer s' = TimerArmed (now + st_IdleTimeout s)))"
proof -
  have inv: "loop_inv s" "clients_inv s" using streams.reach_inv [OF assms] by (simp_all add: stream_inv_def)
  have "st_loops s \<le> 1" using inv(1) by (simp add: loop_inv_def)
  moreover obtain s' where s': "RemoveClient now c s = Some s'" "st_clients s' = mdel c (st_clients s)"
      "st_clients s' = [] \<and> st_state s \<noteq> StateDestroyed \<longrightarrow> st_idleTimer s' = TimerArmed (now + st_IdleTimeout s)"
    using RemoveClient_removes [OF inv(2)] by blast
  moreover have "mget (st_clients s') c = None" "\<forall>c'. c' \<noteq> c \<longrightarrow> mget (st_clients s') c' = mget (st_clients s) c'"
    by (simp_all add: s'(2))
  ultimately show ?thesis by blast
qed

theorem one_loop_and_removal_witness:
  "\<exists>s'. RemoveClient 5 1 (NewStream DefaultConfig 0 ''cam'' [] [] ''/'') = Some s' \<and> mget (st_clients s') 1 = None"
  using one_loop_and_removal [OF stream_init] by blast

text \<open>
  The ready channel does not mean that the stream plays: after a camera has been lost, while the
  stream waits to reconnect, the channel that was closed when it started to play is still the current
  one, and a client passes at once.
\<close>

theorem ready_while_reconnecting:
  "\<exists>s. reach new_stream (stream_step cfg) s \<and> st_state s = StateReconnecting \<and> isClosed (ReadyCh s) s"
proof -
  let ?s1 = "Stream_Start 0 (NewStream DefaultConfig 0 ''cam'' [] [] ''/'')"
  let ?s2 = "snd (transition 0 StatePlaying ?s1)"
  let ?s3 = "snd (transition 0 StateReconnecting ?s2)"
  have r: "reach new_stream (stream_step cfg) ?s3"
    by (rule stream_next [OF reach_playing stream_step.step_transition])
  have "st_state ?s3 = StateReconnecting \<and> isClosed (ReadyCh ?s3) ?s3"
    by (simp add: transition_def validTransition_def unsafeSetState_def ReadyCh_def Let_def started_connecting)
  with r show ?thesis by blast
qed

end
