(* ===== verification/Rtsp_Upstream.thy ===== *)
theory Rtsp_Upstream
  imports Stream_System Rtsp_Sdp
begin

text \<open>
  The conversation with the camera: how a response is matched to the request that waits for it and
  what it does to the stream (\<open>HandleUpstreamResponse\<close> and its handlers), how a request is sent and
  awaited (\<open>SendRequestSync\<close>), and the connect sequence (\<open>doConnectSequence\<close>). While a request
  waits, the read loop handles the messages that arrive; which ones, and how the wait ends, is an
  argument (\<open>attempt\<close>). A panic is \<open>None\<close>.
\<close>

section \<open>Responses of the camera\<close>

definition updSession :: "string \<Rightarrow> (session \<Rightarrow> session) \<Rightarrow> stream \<Rightarrow> stream" where
  "updSession sid f s =
     (case mget (st_sessions s) sid of
        None \<Rightarrow> s
      | Some session \<Rightarrow> s\<lparr>st_sessions := mput sid (f session) (st_sessions s)\<rparr>)"

definition updTransport :: "string \<times> string \<times> string \<Rightarrow> (transport \<Rightarrow> transport) \<Rightarrow> session \<Rightarrow> session" where
  "updTransport key f session =
     session\<lparr>se_Transports := map (\<lambda>t. if transport_key t = key then f t else t) (se_Transports session)\<rparr>"

definition handleTeardown :: "request \<Rightarrow> response \<Rightarrow> stream \<Rightarrow> stream option" where
  "handleTeardown request response s =
     (let sessionID = headerGet (rq_Headers request) ''Session''
      in case LookupSession [] sessionID s of
           (session, s) \<Rightarrow>
             map_option (\<lambda>_. s\<lparr>st_sessions := mdel sessionID (st_sessions s)\<rparr>) (Session_Stop session))"

definition handleOptions :: "request \<Rightarrow> response \<Rightarrow> stream \<Rightarrow> stream" where
  "handleOptions request response s =
     s\<lparr>st_Options := headerGet (rs_Headers response) ''Public'', st_Server := headerGet (rs_Headers response) ''Server''\<rparr>"

definition handleDescribe :: "request \<Rightarrow> response \<Rightarrow> stream \<Rightarrow> stream" where
  "handleDescribe request response s = s\<lparr>st_SDP := rs_Body response\<rparr>"

text \<open>The SSRC and the interleaved channels that a SETUP response gives to a transport.\<close>

definition setupTransport :: "string \<Rightarrow> headers \<Rightarrow> transport \<Rightarrow> transport" where
  "setupTransport substreamName params t =
     (let t = t\<lparr>tr_Ssrc := mget_str params ''ssrc''\<rparr>
      in case mget params ''interleaved'' of
           None \<Rightarrow> t
         | Some interleaved \<Rightarrow>
             (let channels = split (CHR ''-'') interleaved;
                  sub1 = (NewSubstream substreamName)\<lparr>su_Channel := fst (atoi (channels ! 0))\<rparr>;
                  t = t\<lparr>tr_Substreams := mput 0 sub1 (tr_Substreams t)\<rparr>
              in if 1 < length channels then
                   t\<lparr>tr_Substreams := mput 1 ((NewSubstream substreamName)\<lparr>su_Channel := fst (atoi (channels ! 1))\<rparr>)
                       (tr_Substreams t)\<rparr>
                 else t))"

definition setupTimeout :: "string \<Rightarrow> session \<Rightarrow> session" where
  "setupTimeout element session =
     (case splitN 2 (CHR ''='') element of
        [k, v] \<Rightarrow> if k = ''timeout'' then session\<lparr>se_Timeout := fst (atoi v)\<rparr> else session
      | _ \<Rightarrow> session)"

definition handleSetup :: "request \<Rightarrow> response \<Rightarrow> stream \<Rightarrow> stream option" where
  "handleSetup request response s =
     (case rq_URL request of
        None \<Rightarrow> None
      | Some u \<Rightarrow>
          (let substreamName = split_file (Path u);
               (protocol, comType, params) = parseTransport (headerGet (rs_Headers response) ''Transport'');
               sessionParams = split (CHR '';'') (headerGet (rs_Headers response) ''Session'');
               sid = sessionParams ! 0;
               key = (substreamName, protocol, comType);
               (_, s) = LookupSession [] sid s
           in Some (updSession sid
                (\<lambda>session. fold setupTimeout (drop 1 sessionParams)
                   (updTransport key (setupTransport substreamName params) (snd (Session_LookupTransport key session)))) s)))"

text \<open>One entry of \<open>RTP-Info\<close>. A URL that does not parse is a nil pointer, and reading its path panics.\<close>

definition rtpInfoEntry :: "string \<Rightarrow> session \<Rightarrow> session option" where
  "rtpInfoEntry rtp session =
     (let params = fold addParam (split (CHR '';'') rtp) []
      in case url_parse (mget_str params ''url'') of
           Inl err \<Rightarrow> None
         | Inr u \<Rightarrow>
             (let substreamName = split_file (Path u)
              in Some (session\<lparr>se_Transports :=
                   map (\<lambda>t. if tr_SubstreamName t = substreamName then
                              (case mget (tr_Substreams t) 0 of
                                 None \<Rightarrow> t
                               | Some sub \<Rightarrow>
                                   t\<lparr>tr_Substreams := mput 0
                                     (sub\<lparr>su_Seq := fst (atoi (mget_str params ''seq'')),
                                          su_RTPTime := fst (atoi (mget_str params ''rtptime''))\<rparr>) (tr_Substreams t)\<rparr>)
                            else t) (se_Transports session)\<rparr>)))"

fun rtpInfoEntries :: "string list \<Rightarrow> session \<Rightarrow> session option" where
  "rtpInfoEntries [] session = Some session"
| "rtpInfoEntries (rtp # rtps) session =
     (case rtpInfoEntry rtp session of None \<Rightarrow> None | Some session \<Rightarrow> rtpInfoEntries rtps session)"

definition handlePlay :: "request \<Rightarrow> response \<Rightarrow> stream \<Rightarrow> stream option" where
  "handlePlay request response s =
     (let rtpInfo = headerGet (rs_Headers response) ''RTP-Info'';
          sid = headerGet (rq_Headers request) ''Session'';
          (session, s) = LookupSession [] sid s
      in case (if rtpInfo = [] then Some session else rtpInfoEntries (split (CHR '','') rtpInfo) session) of
           None \<Rightarrow> None
         | Some session \<Rightarrow>
             map_option (\<lambda>session. updSession sid (\<lambda>_. session) s) (StartUpstream session))"

definition handleResponse :: "request \<Rightarrow> response \<Rightarrow> stream \<Rightarrow> stream option" where
  "handleResponse request response s =
     (if rq_Method request = ''OPTIONS'' then Some (handleOptions request response s)
      else if rq_Method request = ''DESCRIBE'' then Some (handleDescribe request response s)
      else if rq_Method request = ''SETUP'' then handleSetup request response s
      else if rq_Method request = ''PLAY'' then handlePlay request response s
      else if rq_Method request = ''TEARDOWN'' then handleTeardown request response s
      else Some s)"

text \<open>The end of a request: it leaves the queue and its subscribers are told the status.\<close>

definition finalize :: "nat \<Rightarrow> request \<Rightarrow> string \<Rightarrow> remote \<Rightarrow> remote" where
  "finalize rid request status r =
     (if rid \<in> set (rm_requests r) then
        r\<lparr>rm_requests := remove1 rid (rm_requests r),
          rm_ipcs := fold (\<lambda>i m. case mget m i of None \<Rightarrow> m | Some c \<Rightarrow> mput i (notify status c) m)
                       (rq_Subscriptions request) (rm_ipcs r)\<rparr>
      else r)"

definition setRemote :: "(remote \<Rightarrow> remote) \<Rightarrow> stream \<Rightarrow> stream" where
  "setRemote f s = s\<lparr>st_remote := map_option f (st_remote s)\<rparr>"

text \<open>
  What a response to the first request of the queue does: retry with credentials, or a status for
  the subscribers.
\<close>

datatype verdict = Retry digest | Done string | Failed string

definition judge :: "response \<Rightarrow> request \<Rightarrow> digest \<Rightarrow> verdict" where
  "judge response request d =
     (if rs_Code response = 401 \<and> rq_Attempts request = 0 then
        (let www = headerGet (rs_Headers response) ''WWW-Authenticate''
         in if www \<noteq> [] then
              (if dg_Username d \<noteq> [] \<and> dg_Password d \<noteq> [] \<and> fst (handleAuthenticationFailure www d)
               then Retry (snd (handleAuthenticationFailure www d))
               else Failed ''unauthorized'')
            else Failed ''ok'')
      else if 400 \<le> rs_Code response then
        Failed (''error '' @ itoa (rs_Code response) @ '': '' @ rs_Status response)
      else Done ''ok'')"

definition HandleUpstreamResponse :: "net_env \<Rightarrow> string \<Rightarrow> stream \<times> metrics \<Rightarrow> (stream \<times> metrics) option" where
  "HandleUpstreamResponse e recv w =
     (case w of (s, mt) \<Rightarrow>
       (case st_remote s of
          None \<Rightarrow> None
        | Some r \<Rightarrow>
            (case NewResponseFromBuffer recv of
               Inl err \<Rightarrow> Some (s, mt)
             | Inr response \<Rightarrow>
                 (case rm_requests r of
                    [] \<Rightarrow> Some (s, mt)
                  | rid # _ \<Rightarrow>
                      (case mget (rm_store r) rid of
                         None \<Rightarrow> None
                       | Some request \<Rightarrow>
                           (case judge response request (rm_digest r) of
                              Retry d \<Rightarrow>
                                (let r = r\<lparr>rm_digest := d,
                                           rm_store := mput rid (request\<lparr>rq_Attempts := rq_Attempts request + 1\<rparr>) (rm_store r)\<rparr>
                                 in case SendRequest e rid r mt of
                                      None \<Rightarrow> None
                                    | Some (_, r, mt) \<Rightarrow> Some (s\<lparr>st_remote := Some r\<rparr>, mt))
                            | Failed status \<Rightarrow>
                                Some (setRemote (finalize rid request status) s,
                                      if status = ''unauthorized'' then mt\<lparr>m_AuthFailures := m_AuthFailures mt + 1\<rparr> else mt)
                            | Done status \<Rightarrow>
                                map_option (\<lambda>s. (setRemote (finalize rid request status) s, mt))
                                  (handleResponse request response s)))))))"

section \<open>Requests to the camera\<close>

text \<open>
  One attempt to send a request and wait for its reply: the network while it is sent, the messages
  that the read loop handles while it waits, how the wait ends, and whether the stream or the server
  has been shut down by then. A wait for a reply that does not come ends with the timer.
\<close>

record attempt =
  at_env :: net_env
  at_msgs :: "(net_env \<times> string) list"
  at_pick :: ipc_pick
  at_streamDone :: bool
  at_serverDone :: bool

fun handleAll :: "(net_env \<times> string) list \<Rightarrow> stream \<times> metrics \<Rightarrow> (stream \<times> metrics) option" where
  "handleAll [] w = Some w"
| "handleAll ((e, recv) # msgs) w =
     (case HandleUpstreamResponse e recv w of None \<Rightarrow> None | Some w \<Rightarrow> handleAll msgs w)"

definition awaitReply :: "ipc_pick \<Rightarrow> ipc \<Rightarrow> string \<times> ipc" where
  "awaitReply pick i =
     (case GetResponse pick i of Some r \<Rightarrow> r | None \<Rightarrow> the (GetResponse PickTimer i))"

definition updRequest :: "nat \<Rightarrow> (request \<Rightarrow> request) \<Rightarrow> remote \<Rightarrow> remote" where
  "updRequest rid f r =
     (case mget (rm_store r) rid of None \<Rightarrow> r | Some q \<Rightarrow> r\<lparr>rm_store := mput rid (f q) (rm_store r)\<rparr>)"

definition dequeue :: "nat \<Rightarrow> remote \<Rightarrow> remote" where
  "dequeue rid r = r\<lparr>rm_requests := remove1 rid (rm_requests r)\<rparr>"

text \<open>The beginning of an attempt: a fresh reply channel, and the request at the end of the queue.\<close>

definition enqueue :: "nat \<Rightarrow> remote \<Rightarrow> nat \<times> remote" where
  "enqueue rid r =
     (let i = rm_next r
      in (i, (updRequest rid (\<lambda>q. q\<lparr>rq_Subscriptions := [i]\<rparr>) r)
               \<lparr>rm_ipcs := mput i (NewIPC [10]) (rm_ipcs r), rm_next := i + 1, rm_requests := rm_requests r @ [rid]\<rparr>))"

definition clearNonce :: "remote \<Rightarrow> remote" where
  "clearNonce r = r\<lparr>rm_digest := (rm_digest r)\<lparr>dg_Nonce := [], dg_Nc := 0\<rparr>\<rparr>"

text \<open>
  \<open>SendRequestSync\<close>, with the attempts from number \<open>n\<close> on. The result is the error, if any, and the
  state afterwards.
\<close>

fun sendSync :: "(nat \<Rightarrow> attempt) \<Rightarrow> nat \<Rightarrow> nat \<Rightarrow> nat \<Rightarrow> stream \<times> metrics \<Rightarrow>
  (string option \<times> (stream \<times> metrics)) option" where
  "sendSync script 0 n rid w = Some (Some ''timeout after retry'', w)"
| "sendSync script (Suc k) n rid (s, mt) =
     (case st_remote s of
        None \<Rightarrow> None
      | Some r \<Rightarrow>
          (let a = script n; (i, r) = enqueue rid r
           in case SendRequest (at_env a) rid r mt of
                None \<Rightarrow> None
              | Some (Some err, r, mt) \<Rightarrow> Some (Some err, (s\<lparr>st_remote := Some (dequeue rid r)\<rparr>, mt))
              | Some (None, r, mt) \<Rightarrow>
                  (case handleAll (at_msgs a) (s\<lparr>st_remote := Some r\<rparr>, mt) of
                     None \<Rightarrow> None
                   | Some (s, mt) \<Rightarrow>
                       (case st_remote s of
                          None \<Rightarrow> None
                        | Some r \<Rightarrow>
                            (case mget (rm_ipcs r) i of
                               None \<Rightarrow> None
                             | Some c \<Rightarrow>
                                 (let (result, c) = awaitReply (at_pick a) c;
                                      s = s\<lparr>st_remote := Some (r\<lparr>rm_ipcs := mput i c (rm_ipcs r)\<rparr>)\<rparr>
                                  in if at_streamDone a then Some (Some ''stream destroyed, request aborted'', (s, mt))
                                     else if at_serverDone a then
                                       Some (Some ''server is shutting down, request aborted'', (s, mt))
                                     else if result = ''timeout'' then
                                       (let s = setRemote (dequeue rid) s
                                        in if n = 0 then
                                             sendSync script k (Suc n) rid
                                               (setRemote (updRequest rid (\<lambda>q. q\<lparr>rq_Attempts := 0\<rparr>) \<circ> clearNonce) s, mt)
                                           else Some (Some result, (s, mt)))
                                     else if result \<noteq> ''ok'' then Some (Some result, (s, mt))
                                     else Some (None, (s, mt))))))))"

definition SendRequestSync :: "(nat \<Rightarrow> attempt) \<Rightarrow> request \<Rightarrow> stream \<times> metrics \<Rightarrow>
  (string option \<times> (stream \<times> metrics)) option" where
  "SendRequestSync script request w =
     (case w of (s, mt) \<Rightarrow>
       (case st_remote s of
          None \<Rightarrow> None
        | Some r \<Rightarrow>
            (case allocRequest request r of
               (rid, r) \<Rightarrow> sendSync script 2 0 rid (s\<lparr>st_remote := Some r\<rparr>, mt))))"

section \<open>The connect sequence\<close>

definition remoteHost :: "stream \<Rightarrow> string" where
  "remoteHost s = (case st_remote s of None \<Rightarrow> [] | Some r \<Rightarrow> rm_Host r)"

text \<open>The result of a step: an error, or a value.\<close>

type_synonym 'a answer = "((string + 'a) \<times> (stream \<times> metrics)) option"

definition Remote_GetOptions :: "(nat \<Rightarrow> attempt) \<Rightarrow> string \<Rightarrow> stream \<times> metrics \<Rightarrow> string answer" where
  "Remote_GetOptions script streamName w =
     (if GetOptions (fst w) = [] then
        (case SendRequestSync script
                (NewRequest ''OPTIONS'' (Some (rtsp_url (remoteHost (fst w)) streamName)) []) w of
           None \<Rightarrow> None
         | Some (Some err, w) \<Rightarrow> Some (Inl err, w)
         | Some (None, w) \<Rightarrow> Some (Inr (GetOptions (fst w)), w))
      else Some (Inr (GetOptions (fst w)), w))"

definition Remote_GetSDP :: "(nat \<Rightarrow> attempt) \<Rightarrow> string \<Rightarrow> stream \<times> metrics \<Rightarrow> string answer" where
  "Remote_GetSDP script streamName w =
     (if GetSDP (fst w) = [] then
        (case SendRequestSync script
                (NewRequest ''DESCRIBE'' (Some (rtsp_url (remoteHost (fst w)) streamName)) []) w of
           None \<Rightarrow> None
         | Some (Some err, w) \<Rightarrow> Some (Inl err, w)
         | Some (None, w) \<Rightarrow> Some (Inr (GetSDP (fst w)), w))
      else Some (Inr (GetSDP (fst w)), w))"

text \<open>The URL of a track. An absolute URL that does not parse becomes a nil pointer.\<close>

definition trackURL :: "string \<Rightarrow> stream \<Rightarrow> url option" where
  "trackURL track s =
     (if track = [] \<or> track = ''*'' then Some (rtsp_url (remoteHost s) (st_Path s))
      else if prefix ''rtsp://'' track then
        (case url_parse track of Inl err \<Rightarrow> None | Inr u \<Rightarrow> Some u)
      else Some (rtsp_url (remoteHost s) (trim_right_slash (st_Path s) @ ''/'' @ trim_left_slash track)))"

definition trackMatches :: "string \<Rightarrow> string \<Rightarrow> transport \<Rightarrow> bool" where
  "trackMatches path track t =
     (tr_SubstreamName t = track \<or>
      (track = [] \<and> tr_SubstreamName t = base_name path) \<or>
      (track \<noteq> [] \<and> (tr_SubstreamName t = base_name track \<or> tr_SubstreamName t = track)))"

fun findTrack :: "string \<Rightarrow> string \<Rightarrow> (string \<times> session) list \<Rightarrow> (string \<times> string) option" where
  "findTrack path track [] = None"
| "findTrack path track ((sid, session) # rest) =
     (case List.find (trackMatches path track) (se_Transports session) of
        Some t \<Rightarrow> Some (tr_Ssrc t, se_Session session)
      | None \<Rightarrow> findTrack path track rest)"

definition SetupUpstream :: "(nat \<Rightarrow> attempt) \<Rightarrow> string \<Rightarrow> string \<Rightarrow> stream \<times> metrics \<Rightarrow> (string \<times> string) answer" where
  "SetupUpstream script track transportStr w =
     (case SendRequestSync script
             (setHeader ''Transport'' transportStr (NewRequest ''SETUP'' (trackURL track (fst w)) [])) w of
        None \<Rightarrow> None
      | Some (Some err, w) \<Rightarrow> Some (Inl err, w)
      | Some (None, w) \<Rightarrow>
          (case findTrack (st_Path (fst w)) track (st_sessions (fst w)) of
             Some r \<Rightarrow> Some (Inr r, w)
           | None \<Rightarrow> Some (Inl ''failed to find transport after SETUP'', w)))"

definition PlayUpstream :: "(nat \<Rightarrow> attempt) \<Rightarrow> string \<Rightarrow> string \<Rightarrow> stream \<times> metrics \<Rightarrow> string answer" where
  "PlayUpstream script path sessionID w =
     (case SendRequestSync script
             (setHeader ''Range'' ''npt=0.000-'' (setHeader ''Session'' sessionID
                (NewRequest ''PLAY'' (Some (rtsp_url (remoteHost (fst w)) path)) []))) w of
        None \<Rightarrow> None
      | Some (Some err, w) \<Rightarrow> Some (Inl err, w)
      | Some (None, (s, mt)) \<Rightarrow>
          (case mget (st_sessions s) sessionID of
             None \<Rightarrow> Some (Inr ''ok'', (s, mt))
           | Some session \<Rightarrow>
               map_option (\<lambda>session. (Inr ''ok'', (updSession sessionID (\<lambda>_. session) s, mt))) (StartUpstream session)))"

text \<open>SETUP for the tracks from number \<open>i\<close> on; the result is the session of the last one.\<close>

fun setupTracks :: "(nat \<Rightarrow> nat \<Rightarrow> attempt) \<Rightarrow> nat \<Rightarrow> string list \<Rightarrow> string \<Rightarrow> stream \<times> metrics \<Rightarrow> string answer" where
  "setupTracks script i [] sessionID w = Some (Inr sessionID, w)"
| "setupTracks script i (track # tracks) sessionID w =
     (let transportStr = ''RTP/AVP/TCP;unicast;interleaved='' @ itoa (int i * 2) @ ''-'' @ itoa (int i * 2 + 1)
      in case SetupUpstream (script i) track transportStr w of
           None \<Rightarrow> None
         | Some (Inl err, w) \<Rightarrow> Some (Inl (''SETUP failed for track '' @ track @ '': '' @ err), w)
         | Some (Inr (ssrc, sess), w) \<Rightarrow> setupTracks script (Suc i) tracks sess w)"

text \<open>The attempts of the OPTIONS, the DESCRIBE, the SETUP and the PLAY requests.\<close>

record sequence_script =
  sq_options :: "nat \<Rightarrow> attempt"
  sq_describe :: "nat \<Rightarrow> attempt"
  sq_setup :: "nat \<Rightarrow> nat \<Rightarrow> attempt"
  sq_play :: "nat \<Rightarrow> attempt"

definition doConnectSequence :: "sequence_script \<Rightarrow> stream \<times> metrics \<Rightarrow> unit answer" where
  "doConnectSequence script w =
     (case Remote_GetOptions (sq_options script) (st_Path (fst w)) w of
        None \<Rightarrow> None
      | Some (Inl err, w) \<Rightarrow> Some (Inl (''OPTIONS failed: '' @ err), w)
      | Some (Inr _, w) \<Rightarrow>
          (case Remote_GetSDP (sq_describe script) (st_Path (fst w)) w of
             None \<Rightarrow> None
           | Some (Inl err, w) \<Rightarrow> Some (Inl (''DESCRIBE failed: '' @ err), w)
           | Some (Inr sdp, (s, mt)) \<Rightarrow>
               (let tracks = parseTracks sdp
                in if tracks = [] then Some (Inl ''no tracks found in SDP'', (publishSDP sdp s, mt))
                   else case setupTracks (sq_setup script) 0 tracks [] (publishSDP sdp s, mt) of
                     None \<Rightarrow> None
                   | Some (Inl err, w) \<Rightarrow> Some (Inl err, w)
                   | Some (Inr sessionID, w) \<Rightarrow>
                       (case PlayUpstream (sq_play script) (st_Path (fst w)) sessionID w of
                          None \<Rightarrow> None
                        | Some (Inl err, w) \<Rightarrow> Some (Inl (''PLAY failed: '' @ err), w)
                        | Some (Inr _, w) \<Rightarrow> Some (Inr (), w)))))"

end
