(* ===== verification/Rtsp_ReadLoop.thy ===== *)
theory Rtsp_ReadLoop
  imports Rtsp_Upstream
begin

text \<open>
  \<open>Stream.readLoop\<close> (\<open>stream.go\<close>) with the effect of the frames: packets are dispatched to the
  clients, messages go to \<open>HandleUpstreamResponse\<close>. The event-level specification is \<open>handleEvents\<close>;
  the loop over buffers and reads refines it. The last property follows a packet from the bytes of the
  camera to the queue of a client.
\<close>

section \<open>Definitions\<close>

definition handleEvent :: "config \<Rightarrow> int \<Rightarrow> net_env \<Rightarrow> upstream_event \<Rightarrow> stream \<times> metrics \<Rightarrow> (stream \<times> metrics) option" where
  "handleEvent cfg now e ev w =
     (case ev of
        Packet channel packet \<Rightarrow> dispatch cfg now channel packet (fst w) (snd w)
      | Message msg \<Rightarrow> HandleUpstreamResponse e msg w)"

fun handleEvents :: "config \<Rightarrow> int \<Rightarrow> net_env \<Rightarrow> upstream_event list \<Rightarrow> stream \<times> metrics \<Rightarrow> (stream \<times> metrics) option" where
  "handleEvents cfg now e [] w = Some w"
| "handleEvents cfg now e (ev # evs) w =
     (case handleEvent cfg now e ev w of None \<Rightarrow> None | Some w \<Rightarrow> handleEvents cfg now e evs w)"

text \<open>How the loop ends: the context is done before a turn, or a read fails.\<close>

datatype read_stop = StopCtx | StopError string

datatype 'a loop_result = Returned "string option" 'a | Panicked | Diverged

fun readTurns :: "config \<Rightarrow> int \<Rightarrow> net_env \<Rightarrow> string \<Rightarrow> string \<Rightarrow> read_event list \<Rightarrow> read_stop \<Rightarrow> stream \<times> metrics \<Rightarrow>
  (stream \<times> metrics) loop_result" where
  "readTurns cfg now e buffer pending [] StopCtx w = Returned None w"
| "readTurns cfg now e buffer pending [] (StopError err) w =
     (case drain buffer of
        None \<Rightarrow> Diverged
      | Some (evs, rest, p) \<Rightarrow>
          (case handleEvents cfg now e evs w of
             None \<Rightarrow> Panicked
           | Some w \<Rightarrow> if p then Panicked else Returned (Some err) w))"
| "readTurns cfg now e buffer pending (r # rs) stop w =
     (case drain buffer of
        None \<Rightarrow> Diverged
      | Some (evs, rest, p) \<Rightarrow>
          (case handleEvents cfg now e evs w of
             None \<Rightarrow> Panicked
           | Some w \<Rightarrow>
               if p then Panicked
               else let b = clearFull (nat (BufferSize cfg)) rest;
                        n = (case r of ReadUpTo k \<Rightarrow> min k (nat (BufferSize cfg) - length b) | ReadNothing \<Rightarrow> 0)
                    in readTurns cfg now e (b @ take n pending) (drop n pending) rs stop w))"

definition readLoop :: "config \<Rightarrow> int \<Rightarrow> net_env \<Rightarrow> string \<Rightarrow> read_event list \<Rightarrow> read_stop \<Rightarrow> stream \<times> metrics \<Rightarrow>
  (stream \<times> metrics) loop_result" where
  "readLoop cfg now e pending rs stop w =
     (case st_remote (fst w) of
        None \<Rightarrow> Returned (Some ''remote not connected'') w
      | Some r \<Rightarrow>
          (if \<not> rm_conn r then Returned (Some ''remote connection is nil'') w
           else if BufferSize cfg < 0 then Panicked
           else readTurns cfg now e [] pending rs stop w))"

section \<open>The loop refines the event level\<close>

lemma handleEvents_append:
  "handleEvents cfg now e (xs @ ys) w =
     (case handleEvents cfg now e xs w of None \<Rightarrow> None | Some w \<Rightarrow> handleEvents cfg now e ys w)"
  by (induction xs arbitrary: w) (auto split: option.split)

lemma readTurns_simulates:
  assumes "readFrames (nat (BufferSize cfg)) b c rs = Some (evs, Reading b' c')"
    "handleEvents cfg now e evs w = Some w'"
  shows "readTurns cfg now e b c rs (StopError err) w = Returned (Some err) w'"
  using assms
proof (induction rs arbitrary: b c evs w)
  case Nil
  then show ?case by (auto split: option.splits prod.splits if_splits)
next
  case (Cons r rs)
  from Cons.prems(1) obtain evs1 rest where d: "drain b = Some (evs1, rest, False)"
    by (auto split: option.splits prod.splits if_splits)
  define b1 where "b1 = clearFull (nat (BufferSize cfg)) rest"
  define n where "n = (case r of ReadUpTo k \<Rightarrow> min k (nat (BufferSize cfg) - length b1) | ReadNothing \<Rightarrow> 0)"
  from Cons.prems(1) d obtain evs2 where
    r: "readFrames (nat (BufferSize cfg)) (b1 @ take n c) (drop n c) rs = Some (evs2, Reading b' c')" "evs = evs1 @ evs2"
    by (auto simp: b1_def n_def [unfolded b1_def] Let_def split: option.splits prod.splits)
  from Cons.prems(2) r(2) obtain w1 where w: "handleEvents cfg now e evs1 w = Some w1"
      "handleEvents cfg now e evs2 w1 = Some w'"
    by (auto simp: handleEvents_append split: option.splits)
  show ?case using Cons.IH [OF r(1) w(2)] d w(1) by (simp add: b1_def n_def [unfolded b1_def])
qed

lemma handleEvents_prefix:
  "handleEvents cfg now e evs w = Some w' \<Longrightarrow> \<exists>w1. handleEvents cfg now e (take n evs) w = Some w1"
  by (metis append_take_drop_id handleEvents_append not_None_eq option.case_eq_if)

text \<open>A read that returns at least one byte when there is one. The buffer always has room for it.\<close>

fun positive :: "read_event \<Rightarrow> bool" where
  "positive (ReadUpTo k) = (0 < k)"
| "positive ReadNothing = False"

lemma readFrames_progress:
  assumes "list_all (fits cap) evs" "cap \<noteq> 0" "concat (map event_bytes evs) = b @ c"
    "readFrames cap b c rs = Some (out, Reading buffer rest)"
  shows "length rest \<le> length c - length (filter positive rs)"
  using assms(1,3,4)
proof (induction rs arbitrary: evs b c out)
  case Nil
  then show ?case by (auto split: option.splits prod.splits if_splits)
next
  case (Cons r rs)
  obtain n b' where n: "drain b = Some (take n evs, b', False)" "clearFull cap b' = b'"
      "concat (map event_bytes (drop n evs)) = b' @ c" "part_of b' (drop n evs) cap"
    using drain_prefix [OF Cons.prems(1,2) assms(2)] by blast
  define k where "k = (case r of ReadUpTo k \<Rightarrow> min k (cap - length b') | ReadNothing \<Rightarrow> 0)"
  have "length b' < cap" by (rule part_of_short [OF n(4) assms(2)])
  then have k: "positive r \<Longrightarrow> 0 < k" by (cases r) (simp_all add: k_def)
  from Cons.prems(3) n(1,2) obtain out' where
      out: "readFrames cap (b' @ take k c) (drop k c) rs = Some (out', Reading buffer rest)"
    by (auto simp: k_def Let_def split: option.splits prod.splits)
  have "list_all (fits cap) (drop n evs)"
    using Cons.prems(1) by (auto simp: list_all_iff dest: in_set_dropD)
  from Cons.IH [OF this _ out] n(3) have "length rest \<le> length (drop k c) - length (filter positive rs)" by simp
  with k show ?case by auto
qed

text \<open>The loop against the events, and when enough has been read.\<close>

lemma readLoop_handles:
  assumes "list_all (fits (nat (BufferSize cfg))) evs" "0 < BufferSize cfg"
    "st_remote s = Some r" "rm_conn r" "handleEvents cfg now e evs (s, mt) = Some w'"
  shows "\<exists>n w1. handleEvents cfg now e (take n evs) (s, mt) = Some w1 \<and>
    readLoop cfg now e (concat (map event_bytes evs)) rs (StopError err) (s, mt) = Returned (Some err) w1 \<and>
    (length (concat (map event_bytes evs)) \<le> length (filter positive rs) \<longrightarrow> w1 = w')"
proof -
  have cap: "nat (BufferSize cfg) \<noteq> 0" using assms(2) by simp
  from readFrames_frames [OF assms(1) cap, of "[]" "concat (map event_bytes evs)" rs]
  obtain n buffer rest where f: "readFrames (nat (BufferSize cfg)) [] (concat (map event_bytes evs)) rs =
        Some (take n evs, Reading buffer rest)" "rest = [] \<longrightarrow> take n evs = evs"
    by auto
  obtain w1 where w1: "handleEvents cfg now e (take n evs) (s, mt) = Some w1"
    using handleEvents_prefix [OF assms(5)] by blast
  have "length rest \<le> length (concat (map event_bytes evs)) - length (filter positive rs)"
    using readFrames_progress [OF assms(1) cap _ f(1)] by simp
  then have "length (concat (map event_bytes evs)) \<le> length (filter positive rs) \<longrightarrow> w1 = w'"
    using f(2) w1 assms(5) by auto
  moreover have "readLoop cfg now e (concat (map event_bytes evs)) rs (StopError err) (s, mt) = Returned (Some err) w1"
    using readTurns_simulates [OF f(1) w1] assms(2-4) by (simp add: readLoop_def)
  ultimately show ?thesis using w1 by blast
qed

lemma readLoop_sim:
  assumes "list_all (fits (nat (BufferSize cfg))) evs" "0 < BufferSize cfg"
    "st_remote s = Some r" "rm_conn r" "handleEvents cfg now e evs (s, mt) = Some w'"
    "length (concat (map event_bytes evs)) \<le> length (filter positive rs)"
  shows "readLoop cfg now e (concat (map event_bytes evs)) rs (StopError err) (s, mt) = Returned (Some err) w'"
  using readLoop_handles [OF assms(1-5), of rs err] assms(6) by blast

text \<open>
  C5. Refinement: for a camera that sends well-formed frames that fit the buffer, the read loop does to the
  stream exactly what handling the frames one by one does, however the bytes are cut into reads. When
  the connection ends it has handled the first \<open>n\<close> frames and nothing else, and all of them if there
  were as many non-empty reads as bytes. It returns the error of the connection, without panic or
  endless loop.
\<close>

theorem readLoop_refines:
  assumes "list_all (fits (nat (BufferSize cfg))) evs" "0 < BufferSize cfg"
    "st_remote s = Some r" "rm_conn r" "handleEvents cfg now e evs (s, mt) = Some w'"
  shows "\<exists>n w1. handleEvents cfg now e (take n evs) (s, mt) = Some w1 \<and>
    readLoop cfg now e (concat (map event_bytes evs)) rs (StopError err) (s, mt) = Returned (Some err) w1 \<and>
    (length (concat (map event_bytes evs)) \<le> length (filter positive rs) \<longrightarrow> w1 = w')"
  using readLoop_handles [OF assms] .

text \<open>A stream connected to a camera with one client that plays both channels of the first track.\<close>

definition playing_stream :: "client_session \<Rightarrow> stream" where
  "playing_stream cs =
     (NewStream DefaultConfig 0 ''cam'' [] [] ''/'')
       \<lparr>st_remote := map_option (\<lambda>r. r\<lparr>rm_conn := True\<rparr>) (NewRemote True ''cam'' [] []), st_clients := [(7, cs)]\<rparr>"

definition sample_session :: client_session where
  "sample_session =
     \<lparr> cs_client = 7, cs_queue = make_chan 8, cs_sessionID = ''77'', cs_quitClosed = False, cs_running = True,
       cs_active = True, cs_channels = [(0, 4), (1, 5)] \<rparr>"

lemma DefaultConfig_buffer [simp]: "BufferSize DefaultConfig = 65536"
  by (simp add: DefaultConfig_def)

lemma playing_remote:
  "\<exists>r. st_remote (playing_stream cs) = Some r \<and> rm_conn r"
  by (simp add: playing_stream_def NewRemote_def)

lemma fits_sample: "list_all (fits (nat (BufferSize DefaultConfig))) [Packet 0 (binaryFrame 0 ''ab'')]"
  using fits_binaryFrame [of 0 "''ab''"] by (simp add: fits_def binaryFrame_def)

theorem readLoop_refines_witness:
  "\<exists>n w1. handleEvents DefaultConfig 0 net_ok (take n [Packet 0 (binaryFrame 0 ''ab'')]) (playing_stream sample_session, metrics_zero) =
      Some w1 \<and>
    readLoop DefaultConfig 0 net_ok (binaryFrame 0 ''ab'') [ReadUpTo 3, ReadUpTo 9] (StopError ''EOF'')
      (playing_stream sample_session, metrics_zero) = Returned (Some ''EOF'') w1"
proof -
  have "list_all (fits (nat (BufferSize DefaultConfig))) [Packet 0 (binaryFrame 0 ''ab'')]"
    by (rule fits_sample)
  moreover obtain w' where
    "handleEvents DefaultConfig 0 net_ok [Packet 0 (binaryFrame 0 ''ab'')] (playing_stream sample_session, metrics_zero) = Some w'"
    by (simp add: handleEvent_def dispatch_def binaryFrame_def Let_def)
  moreover obtain r where "st_remote (playing_stream sample_session) = Some r" "rm_conn r"
    using playing_remote by blast
  ultimately show ?thesis
    using readLoop_refines [of DefaultConfig "[Packet 0 (binaryFrame 0 ''ab'')]" "playing_stream sample_session" r 0 net_ok metrics_zero w'
        "[ReadUpTo 3, ReadUpTo 9]" "''EOF''"] by fastforce
qed

section \<open>From the bytes of the camera to the queue of a client\<close>

definition packets :: "(int \<times> string) list \<Rightarrow> upstream_event list" where
  "packets ps = map (\<lambda>(ch, b). Packet ch b) ps"

lemma handleEvents_packets:
  "handleEvents cfg now e (packets ps) (s, mt) = dispatchAll cfg now ps s mt"
  by (induction ps arbitrary: s mt) (auto simp: packets_def handleEvent_def split: option.split)

lemma fits_length: "fits (nat (BufferSize cfg)) (Packet ch b) \<Longrightarrow> int (length b) \<le> BufferSize cfg"
  by (auto simp: fits_def)

text \<open>The copy of a well-formed packet is a well-formed packet on the client's channel.\<close>

lemma clientPacket_ok:
  assumes "event_ok (Packet ch b)" "0 \<le> c" "c < 256"
  shows "event_ok (Packet c (clientPacket c b))"
proof -
  obtain x0 x1 x2 x3 t where "b = x0 # x1 # x2 # x3 # t"
    using assms(1) by (auto simp: numeral_eq_Suc Suc_le_length_iff)
  with assms show ?thesis by (simp add: clientPacket_def pktLen_def)
qed

text \<open>
  Whatever the reads are, once every byte of a sequence of well-formed packets has been read, the queue
  of a client holds, after what was there, exactly the packets of the channels it has mapped, as far as
  there was room, in the order of the camera, each a well-formed packet on the client's own channel.
\<close>

lemma camera_to_queue:
  assumes "list_all (fits (nat (BufferSize cfg))) (packets ps)" "0 < BufferSize cfg"
    "st_remote s = Some r" "rm_conn r" "mget (st_clients s) c = Some cs"
    "length (concat (map event_bytes (packets ps))) \<le> length (filter positive rs)"
    "\<forall>(up, down) \<in> set (cs_channels cs). 0 \<le> down \<and> down < 256"
  shows "\<exists>s' mt' cs'.
    readLoop cfg now e (concat (map event_bytes (packets ps))) rs (StopError err) (s, mt) = Returned (Some err) (s', mt') \<and>
    mget (st_clients s') c = Some cs' \<and>
    cs' = fold (\<lambda>p cs. fst (Push p cs)) (addressed cs ps) cs \<and>
    cs_contents cs' = cs_contents cs @ take (cs_room cs) (addressed cs ps) \<and>
    (\<forall>p \<in> set (addressed cs ps). \<exists>ch. event_ok (Packet ch p))"
proof -
  have len: "\<forall>p \<in> set ps. int (length (snd p)) \<le> BufferSize cfg"
    using assms(1) by (fastforce simp: packets_def list_all_iff dest: fits_length)
  obtain s' mt' where d: "dispatchAll cfg now ps s mt = Some (s', mt')" using dispatch_total [OF len] by blast
  have "readLoop cfg now e (concat (map event_bytes (packets ps))) rs (StopError err) (s, mt) = Returned (Some err) (s', mt')"
    using readLoop_sim [OF assms(1-4), of now e mt "(s', mt')" rs err] d assms(6) by (simp add: handleEvents_packets)
  moreover have "\<exists>ch. event_ok (Packet ch p)" if p: "p \<in> set (addressed cs ps)" for p
  proof -
    obtain ch b down where b: "(ch, b) \<in> set ps" "mget (cs_channels cs) ch = Some down" "p = clientPacket down b"
      using p by (force simp: addressed_def split: option.splits)
    have "event_ok (Packet ch b)" using assms(1) b(1) by (auto simp: packets_def list_all_iff fits_def)
    moreover have "0 \<le> down" "down < 256" using assms(7) map_of_SomeD [OF b(2)] by auto
    ultimately show ?thesis using clientPacket_ok b(3) by blast
  qed
  ultimately show ?thesis
    using dispatchAll_client [OF d assms(5)] queue.pushes_contents by blast
qed

end
