(* ===== verification/Upstream_Props.thy ===== *)
theory Upstream_Props
  imports Rtsp_Upstream
begin

text \<open>
  Properties of the conversation with the camera: a response concludes the oldest request or retries
  it once, SETUP responses are registered where the clients look for them, a request that gets no
  reply leaves nothing behind, and what malformed answers do.
\<close>

section \<open>Lemmas\<close>

lemma LookupSession_remote [simp]: "st_remote (snd (LookupSession args sid s)) = st_remote s"
  by (simp add: LookupSession_def Let_def split: option.split)

lemma updSession_remote [simp]: "st_remote (updSession sid f s) = st_remote s"
  by (simp add: updSession_def split: option.split)

lemma LookupSession_eq: "LookupSession args sid s = (ses, t) \<Longrightarrow> st_remote t = st_remote s"
  using LookupSession_remote [of args sid s] by simp

lemma handler_remote:
  "handleSetup q p s = Some s' \<Longrightarrow> st_remote s' = st_remote s"
  "handlePlay q p s = Some s' \<Longrightarrow> st_remote s' = st_remote s"
  "handleTeardown q p s = Some s' \<Longrightarrow> st_remote s' = st_remote s"
  by (auto simp: handleSetup_def handlePlay_def handleTeardown_def Let_def dest: LookupSession_eq
      split: if_splits option.splits prod.splits)

lemma handleResponse_remote: "handleResponse q p s = Some s' \<Longrightarrow> st_remote s' = st_remote s"
  by (auto simp: handleResponse_def handleOptions_def handleDescribe_def handler_remote split: if_splits)

lemma Disconnect_queue: "rm_requests (Disconnect r) = (if rm_conn r then [] else rm_requests r)"
  by (simp add: Disconnect_def)

text \<open>What sending does to the queue and to the request that is sent.\<close>

lemma createAuthenticatorStr_attempts:
  "createAuthenticatorStr rnd d q = Some (q', d') \<Longrightarrow> rq_Attempts q' = rq_Attempts q"
  by (auto simp: createAuthenticatorStr_def split: if_splits option.splits prod.splits)

lemma SendRequest_queue:
  assumes "SendRequest e rid r mt = Some (err, r', mt')" "mget (rm_store r) rid = Some q"
  shows "rm_requests r' = [] \<or>
    rm_requests r' = rm_requests r \<and> (\<exists>q'. mget (rm_store r') rid = Some q' \<and> rq_Attempts q' = rq_Attempts q)"
  using assms
  by (auto simp: SendRequest_def dialLocked_def Disconnect_queue Let_def
      split: if_splits option.splits prod.splits sum.splits dest!: createAuthenticatorStr_attempts)

lemma finalize_queue [simp]: "rm_requests (finalize rid q status r) = remove1 rid (rm_requests r)"
  by (simp add: finalize_def remove1_idem)

lemma judge_retry: "judge p q d = Retry d' \<Longrightarrow> rs_Code p = 401 \<and> rq_Attempts q = 0"
  by (auto simp: judge_def Let_def split: if_splits)

subsection \<open>Transports\<close>

lemma digits_free: "list_all is_digit s \<Longrightarrow> \<not> is_digit c \<Longrightarrow> c \<notin> set s"
  by (auto simp: list_all_iff)

lemma itoa_free: "0 \<le> k \<Longrightarrow> \<not> is_digit c \<Longrightarrow> c \<notin> set (itoa k)"
  by (simp add: itoa_def digits_free nat_dec_digits)

lemma not_digits: "\<not> is_digit (CHR '';'')" "\<not> is_digit (CHR ''-'')" "\<not> is_digit (CHR ''='')"
  by (simp_all add: is_digit_def byte_val_def)

lemma parseTransport_interleaved:
  assumes "CHR '';'' \<notin> set chans" "CHR '';'' \<notin> set ssrc"
  shows "parseTransport (''RTP/AVP/TCP;unicast;interleaved='' @ chans @ '';ssrc='' @ ssrc) =
    (''RTP/AVP/TCP'', ''unicast'', [(''interleaved'', chans), (''ssrc'', ssrc)])"
proof -
  let ?t = "''RTP/AVP/TCP;unicast;interleaved='' @ chans @ '';ssrc='' @ ssrc"
  have "split (CHR '';'') (''RTP/AVP/TCP'' @ CHR '';'' # ''unicast'' @ CHR '';'' # (''interleaved='' @ chans) @
      CHR '';'' # ''ssrc='' @ ssrc) = [''RTP/AVP/TCP'', ''unicast'', ''interleaved='' @ chans, ''ssrc='' @ ssrc]"
    using assms by (subst split_append, simp)+ simp
  then have sp: "split (CHR '';'') ?t = [''RTP/AVP/TCP'', ''unicast'', ''interleaved='' @ chans, ''ssrc='' @ ssrc]"
    by simp
  have "splitN 2 (CHR ''='') (''interleaved'' @ CHR ''='' # chans) = [''interleaved'', chans]"
    "splitN 2 (CHR ''='') (''ssrc'' @ CHR ''='' # ssrc) = [''ssrc'', ssrc]"
    by (rule splitN_two_append, simp)+
  then have "fold addParam [''interleaved='' @ chans, ''ssrc='' @ ssrc] [] = [(''interleaved'', chans), (''ssrc'', ssrc)]"
    by (simp add: addParam_def)
  with sp show ?thesis by (simp add: parseTransport_def Let_def del: append.simps)
qed

lemma setupTransport_key [simp]: "transport_key (setupTransport name params t) = transport_key t"
  by (simp add: setupTransport_def transport_key_def Let_def split: option.split)

lemma findTransport_upd:
  assumes "\<And>t. transport_key (f t) = transport_key t"
  shows "findTransport (updTransport key f session) key = map_option f (findTransport session key)"
proof -
  have "List.find (\<lambda>t. transport_key t = key) (map (\<lambda>t. if transport_key t = key then f t else t) ts) =
      map_option f (List.find (\<lambda>t. transport_key t = key) ts)" for ts
    by (induction ts) (simp_all add: assms)
  then show ?thesis by (simp add: findTransport_def updTransport_def)
qed

lemma setupTransport_channels:
  assumes "0 \<le> a" "a \<le> maxInt64" "0 \<le> b" "b \<le> maxInt64"
  shows "\<exists>sub0 sub1. tr_Ssrc (setupTransport name [(''interleaved'', itoa a @ ''-'' @ itoa b), (''ssrc'', ssrc)] t) = ssrc \<and>
    mget (tr_Substreams (setupTransport name [(''interleaved'', itoa a @ ''-'' @ itoa b), (''ssrc'', ssrc)] t)) 0 = Some sub0 \<and>
    su_Channel sub0 = a \<and>
    mget (tr_Substreams (setupTransport name [(''interleaved'', itoa a @ ''-'' @ itoa b), (''ssrc'', ssrc)] t)) 1 = Some sub1 \<and>
    su_Channel sub1 = b"
proof -
  have "split (CHR ''-'') (itoa a @ CHR ''-'' # itoa b) = [itoa a, itoa b]"
    using assms by (simp add: split_append itoa_free not_digits)
  moreover have "fst (atoi (itoa a)) = a" "fst (atoi (itoa b)) = b"
    using assms by (simp_all add: atoi_itoa)
  ultimately show ?thesis by (simp add: setupTransport_def mget_str_def Let_def)
qed

lemma LookupSession_in:
  "\<exists>session. mget (st_sessions (snd (LookupSession [] sid s))) sid = Some session \<and>
     (mget (st_sessions s) sid = Some session \<or> se_Transports session = [])"
proof (intro exI conjI)
  show "mget (st_sessions (snd (LookupSession [] sid s))) sid = Some (fst (LookupSession [] sid s))"
    by (rule sessions.goc_look) simp
  show "mget (st_sessions s) sid = Some (fst (LookupSession [] sid s)) \<or> se_Transports (fst (LookupSession [] sid s)) = []"
    by (auto simp: LookupSession_def NewSession_def Let_def split: option.split)
qed

section \<open>Properties\<close>





section \<open>Requests without a reply, and malformed answers\<close>

text \<open>An attempt during which the camera sends the given messages.\<close>

definition answered :: "string list \<Rightarrow> nat \<Rightarrow> attempt" where
  "answered msgs n = \<lparr> at_env = net_ok, at_msgs = map (\<lambda>m. (net_ok, m)) msgs, at_pick = PickReply,
                      at_streamDone = False, at_serverDone = False \<rparr>"

lemma awaitReply_silent: "ch_buf (ipc_Channel i) = [] \<Longrightarrow> fst (awaitReply pick i) = ''timeout''"
  by (cases pick) (simp_all add: awaitReply_def GetResponse_def tryRecv_def)

lemma enqueue_facts:
  "enqueue rid r = (i, r') \<Longrightarrow> mget (rm_ipcs r') i = Some (NewIPC [10]) \<and> rm_requests r' = rm_requests r @ [rid] \<and>
     rm_conn r' = rm_conn r \<and> map_option rq_URL (mget (rm_store r') rid) = map_option rq_URL (mget (rm_store r) rid)"
  by (auto simp: enqueue_def updRequest_def Let_def split: option.splits)

lemma SendRequest_ipcs:
  "SendRequest e rid r mt = Some (err, r', mt') \<Longrightarrow> rm_ipcs r' = rm_ipcs r"
  by (auto simp: SendRequest_def dialLocked_def Disconnect_def Let_def split: if_splits option.splits prod.splits sum.splits)

lemma SendRequest_requests:
  "SendRequest e rid r mt = Some (err, r', mt') \<Longrightarrow> rm_requests r' = rm_requests r \<or> rm_requests r' = []"
  by (auto simp: SendRequest_def dialLocked_def Disconnect_def Let_def split: if_splits option.splits prod.splits sum.splits)

lemma remove1_snoc: "rid \<notin> set xs \<Longrightarrow> remove1 rid (xs @ [rid]) = xs"
  by (simp add: remove1_append)

text \<open>
  With no message from the camera an attempt fails, and whatever happens the queue afterwards is the
  one before or empty.
\<close>

definition queue_back :: "nat list \<Rightarrow> stream \<Rightarrow> bool" where
  "queue_back xs s = (\<exists>r. st_remote s = Some r \<and> (rm_requests r = xs \<or> rm_requests r = []))"

lemma sendSync_silent:
  assumes "sendSync script k n rid (s, mt) = Some (res, (s', mt'))" "\<And>n. at_msgs (script n) = []"
    "\<And>n. \<not> at_streamDone (script n) \<and> \<not> at_serverDone (script n)" "queue_back xs s" "rid \<notin> set xs"
  shows "res \<noteq> None \<and> queue_back xs s'"
  using assms
proof (induction k arbitrary: n s mt)
  case (Suc k)
  obtain r where r: "st_remote s = Some r" "rm_requests r = xs \<or> rm_requests r = []"
    using Suc.prems(4) by (auto simp: queue_back_def)
  obtain i r1 where e: "enqueue rid r = (i, r1)" by (cases "enqueue rid r")
  note en = enqueue_facts [OF e]
  obtain err r2 mt2 where s2: "SendRequest (at_env (script n)) rid r1 mt = Some (err, r2, mt2)"
    using Suc.prems(1) r e by (auto simp: Let_def split: option.splits)
  have q: "remove1 rid (rm_requests r2) = xs \<or> remove1 rid (rm_requests r2) = []"
    using SendRequest_requests [OF s2] en r(2) Suc.prems(5) by (auto simp: remove1_snoc)
  have ipc: "mget (rm_ipcs r2) i = Some (NewIPC [10])" using SendRequest_ipcs [OF s2] en by simp
  show ?case
  proof (cases err)
    case (Some x)
    then show ?thesis using Suc.prems(1) r e s2 q by (auto simp: queue_back_def dequeue_def Let_def)
  next
    case None
    obtain result c where w: "awaitReply (at_pick (script n)) (NewIPC [10]) = (result, c)"
      by (cases "awaitReply (at_pick (script n)) (NewIPC [10])")
    have t: "result = ''timeout''"
      using awaitReply_silent [of "NewIPC [10]" "at_pick (script n)"] w by (simp add: NewIPC_def make_chan_def)
    let ?s = "setRemote (dequeue rid) (s\<lparr>st_remote := Some (r2\<lparr>rm_ipcs := mput i c (rm_ipcs r2)\<rparr>)\<rparr>)"
    let ?s1 = "setRemote (updRequest rid (\<lambda>q. q\<lparr>rq_Attempts := 0\<rparr>) \<circ> clearNonce) ?s"
    have qb: "queue_back xs ?s" "queue_back xs ?s1"
      using q by (auto simp: queue_back_def setRemote_def dequeue_def updRequest_def clearNonce_def split: option.split)
    have "sendSync script (Suc k) n rid (s, mt) =
        (if n = 0 then sendSync script k (Suc n) rid (?s1, mt2) else Some (Some ''timeout'', (?s, mt2)))"
      using r e s2 None ipc w t Suc.prems(2,3) by (simp add: Let_def)
    with Suc.prems(1) Suc.IH [OF _ Suc.prems(2,3) qb(2) Suc.prems(5)] qb(1) show ?thesis
      by (auto split: if_splits)
  qed
qed (auto simp: queue_back_def)



text \<open>
  A refused request can be reported as granted: a camera that answers DESCRIBE with 401 and no
  \<open>WWW-Authenticate\<close> header makes \<open>GetSDP\<close> succeed with an empty description.
\<close>

theorem refusal_without_challenge_is_ok:
  "\<exists>w. Remote_GetSDP (answered [''RTSP/1.0 401 Unauthorized'' @ CRLF @ CRLF]) ''/ch1''
     ((NewStream DefaultConfig 0 ''cam'' [] [] ''/ch1'')\<lparr>st_remote := NewRemote True ''cam'' [] []\<rparr>, metrics_zero) =
     Some (Inr [], w)"
proof -
  let ?x = "Remote_GetSDP (answered [''RTSP/1.0 401 Unauthorized'' @ CRLF @ CRLF]) ''/ch1''
     ((NewStream DefaultConfig 0 ''cam'' [] [] ''/ch1'')\<lparr>st_remote := NewRemote True ''cam'' [] []\<rparr>, metrics_zero)"
  have "map_option fst ?x = Some (Inr [])" by code_simp
  then show ?thesis by (cases ?x) auto
qed

text \<open>
  A camera can crash the proxy with a URL that does not parse: as the control of a track, whose
  SETUP request then has no URL, and in the \<open>RTP-Info\<close> header of its answer to PLAY.
\<close>

theorem malformed_url_panics:
  "SetupUpstream (answered []) ''rtsp://cam/%zz'' ''RTP/AVP/TCP;unicast;interleaved=0-1''
     ((NewStream DefaultConfig 0 ''cam'' [] [] ''/ch1'')\<lparr>st_remote := NewRemote True ''cam'' [] []\<rparr>, metrics_zero) = None \<and>
   handlePlay (NewRequest ''PLAY'' (Some (rtsp_url ''cam'' ''/ch1'')) [])
     ((NewResponse 200 [])\<lparr>rs_Headers := [(''Rtp-Info'', ''url=%zz;seq=1'')]\<rparr>)
     (NewStream DefaultConfig 0 ''cam'' [] [] ''/ch1'') = None"
proof
  have "Option.is_none (SetupUpstream (answered []) ''rtsp://cam/%zz'' ''RTP/AVP/TCP;unicast;interleaved=0-1''
     ((NewStream DefaultConfig 0 ''cam'' [] [] ''/ch1'')\<lparr>st_remote := NewRemote True ''cam'' [] []\<rparr>, metrics_zero))"
    by code_simp
  then show "SetupUpstream (answered []) ''rtsp://cam/%zz'' ''RTP/AVP/TCP;unicast;interleaved=0-1''
     ((NewStream DefaultConfig 0 ''cam'' [] [] ''/ch1'')\<lparr>st_remote := NewRemote True ''cam'' [] []\<rparr>, metrics_zero) = None"
    by (simp add: Option.is_none_def)
  have "Option.is_none (handlePlay (NewRequest ''PLAY'' (Some (rtsp_url ''cam'' ''/ch1'')) [])
     ((NewResponse 200 [])\<lparr>rs_Headers := [(''Rtp-Info'', ''url=%zz;seq=1'')]\<rparr>)
     (NewStream DefaultConfig 0 ''cam'' [] [] ''/ch1''))"
    by code_simp
  then show "handlePlay (NewRequest ''PLAY'' (Some (rtsp_url ''cam'' ''/ch1'')) [])
     ((NewResponse 200 [])\<lparr>rs_Headers := [(''Rtp-Info'', ''url=%zz;seq=1'')]\<rparr>)
     (NewStream DefaultConfig 0 ''cam'' [] [] ''/ch1'') = None"
    by (simp add: Option.is_none_def)
qed

text \<open>A camera with one track that grants every request.\<close>

definition ok_head :: string where
  "ok_head = ''RTSP/1.0 200 OK'' @ CRLF"

definition good_sdp :: string where
  "good_sdp = ''m=video 0'' @ CRLF @ ''a=control:trackID=1'' @ CRLF"

definition good_camera :: sequence_script where
  "good_camera =
     \<lparr> sq_options = answered [ok_head @ ''Public: OPTIONS, PLAY'' @ CRLF @ CRLF],
       sq_describe = answered [ok_head @ ''Content-Length: '' @ itoa (int (length good_sdp)) @ CRLF @ CRLF @ good_sdp],
       sq_setup = (\<lambda>i. answered [ok_head @ ''Transport: RTP/AVP/TCP;unicast;interleaved=0-1;ssrc=AB'' @ CRLF @
                                 ''Session: 77;timeout=30'' @ CRLF @ CRLF]),
       sq_play = answered [ok_head @ CRLF] \<rparr>"


end
