(* ===== verification/Connect_Loop.thy ===== *)
theory Connect_Loop
  imports Rtsp_ReadLoop Upstream_Props
begin

text \<open>
  The connect loop of a stream (\<open>connectLoop\<close>): its sections between the points where other
  goroutines can run, the system of the loop and its stream, and its invariant. The lemmas show that
  every section is a sequence of steps of the stream, so that what holds of the stream's steps holds
  with the loop running; the properties are about the backoff, and about the states in which the loop
  leaves the stream.
\<close>

section \<open>Definitions\<close>

text \<open>
  Where the loop is: at the head of a turn, before the transition to connecting, before the
  connection is replaced, before the dial, before the connect sequence, waiting for the read loop,
  or sleeping; or there is no loop.
\<close>

datatype loop_pc = LNone | LTop | LEnter | LRemote | LDial | LSequence | LWait | LBackoff

record stream_loop =
  sl_pc :: loop_pc
  sl_idx :: nat
  sl_stream :: stream
  sl_metrics :: metrics

text \<open>
  What a section learns from outside: the time, whether the host resolves, the network, the answers of
  the camera, what the read loop returned, and which case a \<open>select\<close> takes when the timer has fired
  and the context is done.
\<close>

record loop_input =
  li_now :: int
  li_resolve :: bool
  li_net :: net_env
  li_script :: sequence_script
  li_read :: "string option"
  li_timer :: bool

definition loopReturn :: "stream \<Rightarrow> metrics \<Rightarrow> stream_loop \<Rightarrow> stream_loop" where
  "loopReturn s mt x = x\<lparr>sl_pc := LNone, sl_stream := loopDone s, sl_metrics := mt\<rparr>"

definition loopAt :: "loop_pc \<Rightarrow> stream \<Rightarrow> metrics \<Rightarrow> stream_loop \<Rightarrow> stream_loop" where
  "loopAt pc s mt x = x\<lparr>sl_pc := pc, sl_stream := s, sl_metrics := mt\<rparr>"

definition countReconnect :: "int \<Rightarrow> stream \<Rightarrow> stream" where
  "countReconnect now s =
     s\<lparr>st_ReconnectCount := st_ReconnectCount s + 1,
       st_LastReconnect := (case st_LastReconnect s of None \<Rightarrow> Some now | Some t \<Rightarrow> Some t)\<rparr>"

definition endReconnect :: "int \<Rightarrow> stream \<Rightarrow> stream" where
  "endReconnect now s =
     (case st_LastReconnect s of
        None \<Rightarrow> s
      | Some t \<Rightarrow> s\<lparr>st_LastReconnect := None, st_ReconnectTotal := wrap64 (st_ReconnectTotal s + (now - t))\<rparr>)"

text \<open>After a failure: give up when nobody listens, else go to sleep. \<open>backoff[idx]\<close> panics out of range.\<close>

definition loopFailed :: "config \<Rightarrow> int \<Rightarrow> stream \<Rightarrow> metrics \<Rightarrow> stream_loop \<Rightarrow> stream_loop option" where
  "loopFailed cfg now s mt x =
     (if st_clients s = [] then Some (loopReturn (snd (transition now StateDisconnected s)) mt x)
      else if length (ReconnectBackoff cfg) \<le> sl_idx x then None
      else Some (loopAt LBackoff (snd (transition now StateReconnecting s)) mt x))"

text \<open>The connection that is dialled: the stream's, or the loop's own when \<open>Destroy\<close> has detached it.\<close>

definition loopDial :: "net_env \<Rightarrow> stream \<Rightarrow> metrics \<Rightarrow> string option \<times> stream \<times> metrics" where
  "loopDial e s mt =
     (case st_remote s of
        Some r \<Rightarrow> (case Dial e r mt of (err, r, mt) \<Rightarrow> (err, s\<lparr>st_remote := Some r\<rparr>, mt))
      | None \<Rightarrow>
          (case Dial e (the (NewRemote True (st_Host s) (st_Username s) (st_Password s))) mt of
             (err, _, mt) \<Rightarrow> (err, s, mt)))"

definition connectLoop :: "config \<Rightarrow> loop_input \<Rightarrow> stream_loop \<Rightarrow> stream_loop option" where
  "connectLoop cfg i x =
     (let s = sl_stream x; mt = sl_metrics x; now = li_now i
      in case sl_pc x of
           LNone \<Rightarrow> Some x
         | LTop \<Rightarrow>
             Some (if st_ctxDone s \<or> st_state s = StateStopping \<or> st_state s = StateDestroyed then loopReturn s mt x
                   else if st_state s = StateReconnecting then
                     loopAt LEnter (countReconnect now s) (mt\<lparr>m_Reconnects := m_Reconnects mt + 1\<rparr>) x
                   else loopAt LEnter s mt x)
         | LEnter \<Rightarrow>
             (case transition now StateConnecting s of
                (Some err, s) \<Rightarrow> Some (loopReturn s mt x)
              | (None, s) \<Rightarrow> Some (loopAt LRemote s mt x))
         | LRemote \<Rightarrow>
             (let s = s\<lparr>st_remote := NewRemote (li_resolve i) (st_Host s) (st_Username s) (st_Password s)\<rparr>
              in Some (if st_remote s = None then loopReturn (snd (transition now StateDisconnected s)) mt x
                       else loopAt LDial s mt x))
         | LDial \<Rightarrow>
             (case loopDial (li_net i) s mt of
                (None, s, mt) \<Rightarrow> Some (loopAt LSequence s mt x)
              | (Some err, s, mt) \<Rightarrow> loopFailed cfg now s mt x)
         | LSequence \<Rightarrow>
             (if st_remote s = None then None
              else case doConnectSequence (li_script i) (s, mt) of
                None \<Rightarrow> None
              | Some (Inl err, (s, mt)) \<Rightarrow> loopFailed cfg now s mt x
              | Some (Inr _, (s, mt)) \<Rightarrow>
                  (case transition now StatePlaying (endReconnect now s) of
                     (Some err, s) \<Rightarrow> Some (loopReturn s mt x)
                   | (None, s) \<Rightarrow> Some ((loopAt LWait s mt x)\<lparr>sl_idx := 0\<rparr>)))
         | LWait \<Rightarrow>
             (if st_state s = StateStopping \<or> st_state s = StateDestroyed \<or> li_read i = None then
                Some (loopReturn (snd (transition now StateDisconnected s)) mt x)
              else Some (loopAt LBackoff (snd (transition now StateReconnecting s)) mt x))
         | LBackoff \<Rightarrow>
             (if length (ReconnectBackoff cfg) \<le> sl_idx x then None
              else if st_ctxDone s \<and> \<not> li_timer i then Some (loopReturn s mt x)
              else Some ((loopAt LTop s mt x)\<lparr>sl_idx := min (sl_idx x + 1) (length (ReconnectBackoff cfg) - 1)\<rparr>)))"

text \<open>
  The system: a section of the loop, a message or a packet that the read loop hands on while the loop
  waits for it, or a step of another goroutine. Such a step does not end the loop; when it starts one,
  the loop begins at its head.
\<close>

inductive loop_step :: "config \<Rightarrow> stream_loop \<Rightarrow> stream_loop \<Rightarrow> bool" for cfg where
  loop_own: "sl_pc x \<noteq> LNone \<Longrightarrow> connectLoop cfg i x = Some x' \<Longrightarrow> loop_step cfg x x'"
| loop_read: "sl_pc x = LWait \<Longrightarrow> handleEvent cfg now e ev (sl_stream x, sl_metrics x) = Some (s, mt) \<Longrightarrow>
    loop_step cfg x (x\<lparr>sl_stream := s, sl_metrics := mt\<rparr>)"
| loop_other: "stream_step cfg (sl_stream x) s \<Longrightarrow> st_loops s = st_loops (sl_stream x) \<Longrightarrow>
    loop_step cfg x (x\<lparr>sl_stream := s\<rparr>)"
| loop_started: "stream_step cfg (sl_stream x) s \<Longrightarrow> st_loops s = st_loops (sl_stream x) + 1 \<Longrightarrow>
    loop_step cfg x (x\<lparr>sl_stream := s, sl_pc := LTop, sl_idx := 0\<rparr>)"

definition loop_init :: "stream_loop \<Rightarrow> bool" where
  "loop_init x = (new_stream (sl_stream x) \<and> sl_pc x = LNone \<and> sl_idx x = 0)"

definition sys_inv :: "config \<Rightarrow> stream_loop \<Rightarrow> bool" where
  "sys_inv cfg x =
     (stream_inv (sl_stream x) \<and> (sl_pc x = LNone \<longleftrightarrow> st_loops (sl_stream x) = 0) \<and>
      (ReconnectBackoff cfg \<noteq> [] \<longrightarrow> sl_idx x < length (ReconnectBackoff cfg)))"

section \<open>The conversation with the camera is a sequence of steps\<close>

text \<open>A stream without the fields that the camera's answers change.\<close>

definition frame :: "stream \<Rightarrow> stream" where
  "frame s = s\<lparr>st_remote := None, st_sessions := [], st_SDP := [], st_Options := [], st_Server := []\<rparr>"

lemma frame_update [simp]:
  "frame (s\<lparr>st_remote := r\<rparr>) = frame s" "frame (s\<lparr>st_sessions := ss\<rparr>) = frame s" "frame (s\<lparr>st_SDP := d\<rparr>) = frame s"
  "frame (s\<lparr>st_Options := opts\<rparr>) = frame s" "frame (s\<lparr>st_Server := server\<rparr>) = frame s"
  "frame (updSession sid f s) = frame s" "frame (setRemote g s) = frame s" "frame (snd (LookupSession args sid s)) = frame s"
  by (simp_all add: frame_def updSession_def setRemote_def LookupSession_def Let_def split: option.split)

lemma LookupSession_frame: "LookupSession args sid s = (ses, t) \<Longrightarrow> frame t = frame s"
  using frame_update(8) [of args sid s] by simp

lemma frame_eq_steps:
  assumes "frame t = frame s"
  shows "(stream_step cfg)\<^sup>*\<^sup>* s t"
proof -
  let ?a = "s\<lparr>st_remote := st_remote t\<rparr>" and ?b = "s\<lparr>st_remote := st_remote t, st_sessions := st_sessions t\<rparr>"
  have t: "t = ?b\<lparr>st_SDP := st_SDP t, st_Options := st_Options t, st_Server := st_Server t\<rparr>"
    using assms by (cases s; cases t) (simp add: frame_def)
  have "stream_step cfg s ?a" by (rule stream_step.step_remote)
  moreover have "stream_step cfg ?a ?b" using stream_step.step_sessions [of cfg ?a "st_sessions t"] by simp
  moreover have "stream_step cfg ?b t" by (subst (3) t) (rule stream_step.step_fields)
  ultimately show ?thesis by (meson r_into_rtranclp rtranclp.rtrancl_into_rtrancl)
qed

lemma handleResponse_frame: "handleResponse q p s = Some s' \<Longrightarrow> frame s' = frame s"
  by (auto simp: handleResponse_def handleOptions_def handleDescribe_def handleSetup_def handlePlay_def handleTeardown_def
      Let_def dest!: LookupSession_frame split: if_splits option.splits prod.splits)

lemma HandleUpstreamResponse_frame:
  "HandleUpstreamResponse e recv (s, mt) = Some (s', mt') \<Longrightarrow> frame s' = frame s"
  by (auto simp: HandleUpstreamResponse_def Let_def dest!: handleResponse_frame
      split: option.splits sum.splits list.splits verdict.splits prod.splits)

lemma handleAll_frame: "handleAll msgs (s, mt) = Some (s', mt') \<Longrightarrow> frame s' = frame s"
proof (induction msgs arbitrary: s mt)
  case (Cons m msgs)
  then show ?case
    by (cases m) (auto dest!: HandleUpstreamResponse_frame split: option.splits)
qed simp

lemma sendSync_frame: "sendSync script k n rid (s, mt) = Some (err, (s', mt')) \<Longrightarrow> frame s' = frame s"
proof (induction k arbitrary: n s mt)
  case (Suc k)
  then show ?case
    by (auto simp: Let_def dest!: handleAll_frame split: option.splits prod.splits if_splits)
qed simp

lemma SendRequestSync_frame: "SendRequestSync script q (s, mt) = Some (err, (s', mt')) \<Longrightarrow> frame s' = frame s"
  by (auto simp: SendRequestSync_def dest!: sendSync_frame split: option.splits prod.splits)

lemma conversation_frame:
  "Remote_GetOptions o_script name (s, mt) = Some (res, (s', mt')) \<Longrightarrow> frame s' = frame s"
  "Remote_GetSDP o_script name (s, mt) = Some (res, (s', mt')) \<Longrightarrow> frame s' = frame s"
  "SetupUpstream o_script track tstr (s, mt) = Some (res2, (s', mt')) \<Longrightarrow> frame s' = frame s"
  "PlayUpstream o_script path sid (s, mt) = Some (res, (s', mt')) \<Longrightarrow> frame s' = frame s"
  by (auto simp: Remote_GetOptions_def Remote_GetSDP_def SetupUpstream_def PlayUpstream_def
      dest!: SendRequestSync_frame split: if_splits option.splits prod.splits)

lemma setupTracks_frame: "setupTracks script i tracks sid (s, mt) = Some (res, (s', mt')) \<Longrightarrow> frame s' = frame s"
proof (induction tracks arbitrary: i sid s mt)
  case (Cons track tracks)
  then show ?case
    by (auto simp: Let_def dest!: conversation_frame(3) split: option.splits sum.splits prod.splits)
qed simp

lemma doConnectSequence_frame:
  assumes "doConnectSequence script (s, mt) = Some (res, (s', mt'))"
  shows "frame s' = frame s \<or> (\<exists>sdp t. frame t = frame s \<and> frame s' = frame (publishSDP sdp t))"
  using assms
  by (auto simp: doConnectSequence_def Let_def dest!: conversation_frame setupTracks_frame
      split: option.splits sum.splits prod.splits if_splits) metis+

lemma doConnectSequence_steps:
  assumes "doConnectSequence script (s, mt) = Some (res, (s', mt'))"
  shows "(stream_step cfg)\<^sup>*\<^sup>* s s'"
  using doConnectSequence_frame [OF assms]
proof
  assume "\<exists>sdp t. frame t = frame s \<and> frame s' = frame (publishSDP sdp t)"
  then obtain sdp t where t: "frame t = frame s" "frame s' = frame (publishSDP sdp t)" by blast
  have "(stream_step cfg)\<^sup>*\<^sup>* s (publishSDP sdp t)"
    using frame_eq_steps [OF t(1)] stream_step.step_sdp by (rule rtranclp.rtrancl_into_rtrancl)
  with frame_eq_steps [OF t(2)] show ?thesis by (rule rtranclp_trans [rotated])
qed (rule frame_eq_steps)

lemma handleEvent_steps:
  assumes "handleEvent cfg now e ev (s, mt) = Some (s', mt')"
  shows "(stream_step cfg)\<^sup>*\<^sup>* s s'"
proof (cases ev)
  case (Packet channel packet)
  with assms have "dispatch cfg now channel packet s mt = Some (s', mt')" by (simp add: handleEvent_def)
  then show ?thesis by (intro r_into_rtranclp stream_step.step_dispatch)
next
  case (Message msg)
  with assms have "HandleUpstreamResponse e msg (s, mt) = Some (s', mt')" by (simp add: handleEvent_def)
  then show ?thesis by (intro frame_eq_steps HandleUpstreamResponse_frame)
qed

section \<open>The sections of the loop are sequences of steps\<close>

lemma steps_frame_fields:
  "frame t = frame s \<Longrightarrow> st_loops t = st_loops s \<and> st_clients t = st_clients s \<and> st_state t = st_state s"
  by (cases s; cases t) (simp add: frame_def)

lemma doConnectSequence_keeps:
  assumes "doConnectSequence script (s, mt) = Some (res, (s', mt'))"
  shows "st_loops s' = st_loops s \<and> st_clients s' = st_clients s \<and> st_state s' = st_state s"
  using doConnectSequence_frame [OF assms]
  by (auto dest!: steps_frame_fields simp: publishSDP_def)

lemma transition_steps: "(stream_step cfg)\<^sup>*\<^sup>* s (snd (transition now to s))"
  by (intro r_into_rtranclp stream_step.step_transition)

lemma transition_loops [simp]: "st_loops (snd (transition now to s)) = st_loops s"
  by (simp add: transition_def)

lemma transition_eq_steps: "transition now to s = (err, t) \<Longrightarrow> (stream_step cfg)\<^sup>*\<^sup>* s t \<and> st_loops t = st_loops s"
  using transition_steps [of cfg s now to] transition_loops [of now to s] by simp

lemma counters_loops [simp]: "st_loops (countReconnect now s) = st_loops s" "st_loops (endReconnect now s) = st_loops s"
  by (simp_all add: countReconnect_def endReconnect_def split: option.split)

lemma counters_steps:
  "(stream_step cfg)\<^sup>*\<^sup>* s (countReconnect now s)" "(stream_step cfg)\<^sup>*\<^sup>* s (endReconnect now s)"
proof -
  have "countReconnect now s = s\<lparr>st_ReconnectCount := st_ReconnectCount (countReconnect now s),
      st_LastReconnect := st_LastReconnect (countReconnect now s), st_ReconnectTotal := st_ReconnectTotal s\<rparr>"
    by (simp add: countReconnect_def)
  then show "(stream_step cfg)\<^sup>*\<^sup>* s (countReconnect now s)"
    using stream_step.step_counters [of cfg s] by (metis r_into_rtranclp)
  have "endReconnect now s = s\<lparr>st_ReconnectCount := st_ReconnectCount s,
      st_LastReconnect := st_LastReconnect (endReconnect now s), st_ReconnectTotal := st_ReconnectTotal (endReconnect now s)\<rparr>"
    by (simp add: endReconnect_def split: option.split)
  then show "(stream_step cfg)\<^sup>*\<^sup>* s (endReconnect now s)"
    using stream_step.step_counters [of cfg s] by (metis r_into_rtranclp)
qed

lemma loopDial_steps:
  "loopDial e s mt = (err, t, mt') \<Longrightarrow> (stream_step cfg)\<^sup>*\<^sup>* s t \<and> st_loops t = st_loops s"
  by (auto simp: loopDial_def Dial_def intro: r_into_rtranclp stream_step.step_remote split: option.splits prod.splits)

text \<open>
  What a section does to the system: the stream takes steps, and then either the loop goes on with the
  index in range, or it returns.
\<close>

definition section_ok :: "config \<Rightarrow> stream_loop \<Rightarrow> stream_loop \<Rightarrow> bool" where
  "section_ok cfg x x' =
     (\<exists>s. (stream_step cfg)\<^sup>*\<^sup>* (sl_stream x) s \<and> st_loops s = st_loops (sl_stream x) \<and>
          (sl_idx x < length (ReconnectBackoff cfg) \<longrightarrow> sl_idx x' < length (ReconnectBackoff cfg)) \<and>
          (if sl_pc x' = LNone then sl_stream x' = loopDone s else sl_stream x' = s))"

lemma section_return:
  "(stream_step cfg)\<^sup>*\<^sup>* (sl_stream x) s \<Longrightarrow> st_loops s = st_loops (sl_stream x) \<Longrightarrow> section_ok cfg x (loopReturn s mt x)"
  by (auto simp: section_ok_def loopReturn_def)

lemma section_at:
  "(stream_step cfg)\<^sup>*\<^sup>* (sl_stream x) s \<Longrightarrow> st_loops s = st_loops (sl_stream x) \<Longrightarrow> pc \<noteq> LNone \<Longrightarrow>
   section_ok cfg x (loopAt pc s mt x)"
  by (auto simp: section_ok_def loopAt_def)

lemma section_at_idx:
  "(stream_step cfg)\<^sup>*\<^sup>* (sl_stream x) s \<Longrightarrow> st_loops s = st_loops (sl_stream x) \<Longrightarrow> pc \<noteq> LNone \<Longrightarrow>
   (sl_idx x < length (ReconnectBackoff cfg) \<longrightarrow> j < length (ReconnectBackoff cfg)) \<Longrightarrow>
   section_ok cfg x ((loopAt pc s mt x)\<lparr>sl_idx := j\<rparr>)"
  by (auto simp: section_ok_def loopAt_def)

lemma section_failed:
  assumes "(stream_step cfg)\<^sup>*\<^sup>* (sl_stream x) s" "st_loops s = st_loops (sl_stream x)" "loopFailed cfg now s mt x = Some x'"
  shows "section_ok cfg x x'"
proof -
  have t: "(stream_step cfg)\<^sup>*\<^sup>* (sl_stream x) (snd (transition now to s))" for to
    using assms(1) transition_steps by (rule rtranclp_trans)
  show ?thesis
    using assms(2,3) by (auto simp: loopFailed_def intro!: section_return section_at t split: if_splits)
qed

lemma connectLoop_sequence:
  assumes "sl_pc x = LSequence" "connectLoop cfg i x = Some x'"
  shows "section_ok cfg x x'"
proof -
  obtain res s mt where seq: "doConnectSequence (li_script i) (sl_stream x, sl_metrics x) = Some (res, (s, mt))"
    using assms by (auto simp: connectLoop_def Let_def split: if_splits option.splits)
  note st = doConnectSequence_steps [OF seq, of cfg] and keep = doConnectSequence_keeps [OF seq]
  have ps: "(stream_step cfg)\<^sup>*\<^sup>* (sl_stream x) (snd (transition now to (endReconnect now s)))" for now to
    using rtranclp_trans [OF rtranclp_trans [OF st counters_steps(2)] transition_steps] .
  show ?thesis
  proof (cases res)
    case (Inl err)
    with assms seq have "loopFailed cfg (li_now i) s mt x = Some x'"
      by (auto simp: connectLoop_def Let_def split: if_splits)
    with st keep show ?thesis by (intro section_failed) auto
  next
    case (Inr u)
    let ?t = "snd (transition (li_now i) StatePlaying (endReconnect (li_now i) s))"
    from Inr assms seq have "x' = loopReturn ?t mt x \<or> x' = (loopAt LWait ?t mt x)\<lparr>sl_idx := 0\<rparr>"
      by (auto simp: connectLoop_def Let_def split: if_splits option.splits prod.splits)
    with keep show ?thesis by (auto intro!: section_return section_at_idx ps)
  qed
qed

lemma connectLoop_sections:
  assumes "sl_pc x \<noteq> LNone" "connectLoop cfg i x = Some x'"
  shows "section_ok cfg x x'"
proof (cases "sl_pc x")
  case LTop
  with assms show ?thesis
    by (auto simp: connectLoop_def Let_def intro!: section_return section_at counters_steps split: if_splits)
next
  case LEnter
  with assms show ?thesis
    by (auto simp: connectLoop_def Let_def dest: transition_eq_steps intro!: section_return section_at
        split: prod.splits option.splits)
next
  case LRemote
  let ?s = "(sl_stream x)\<lparr>st_remote := NewRemote (li_resolve i) (st_Host (sl_stream x)) (st_Username (sl_stream x))
    (st_Password (sl_stream x))\<rparr>"
  have r: "(stream_step cfg)\<^sup>*\<^sup>* (sl_stream x) ?s" by (intro r_into_rtranclp stream_step.step_remote)
  from LRemote assms
  have "x' = loopReturn (snd (transition (li_now i) StateDisconnected ?s)) (sl_metrics x) x \<or> x' = loopAt LDial ?s (sl_metrics x) x"
    by (auto simp: connectLoop_def Let_def)
  then show ?thesis
    using rtranclp_trans [OF r transition_steps] r by (auto intro!: section_return section_at)
next
  case LDial
  obtain err s mt where d: "loopDial (li_net i) (sl_stream x) (sl_metrics x) = (err, s, mt)" by (metis prod_cases3)
  with LDial assms have "x' = loopAt LSequence s mt x \<or> loopFailed cfg (li_now i) s mt x = Some x'"
    by (auto simp: connectLoop_def Let_def split: option.splits)
  with loopDial_steps [OF d, of cfg] show ?thesis by (auto intro: section_at section_failed)
next
  case LWait
  then show ?thesis
    using assms by (auto simp: connectLoop_def Let_def intro!: section_return section_at transition_steps split: if_splits)
next
  case LBackoff
  then show ?thesis
    using assms by (auto simp: connectLoop_def Let_def intro!: section_return section_at_idx split: if_splits)
qed (use assms connectLoop_sequence in auto)

section \<open>The invariant of the system\<close>

lemma handleEvent_loops: "handleEvent cfg now e ev (s, mt) = Some (s', mt') \<Longrightarrow> st_loops s' = st_loops s"
  by (auto simp: handleEvent_def dest: dispatch_loops HandleUpstreamResponse_frame steps_frame_fields
      split: upstream_event.splits)

lemma stream_inv_loops: "stream_inv s \<Longrightarrow> st_loops s \<le> 1"
  by (simp add: stream_inv_def loop_inv_def)

lemma sys_inv_section:
  assumes inv: "sys_inv cfg x" and "sl_pc x \<noteq> LNone" "section_ok cfg x x'"
  shows "sys_inv cfg x'"
proof -
  from assms(3) obtain s where s: "(stream_step cfg)\<^sup>*\<^sup>* (sl_stream x) s" "st_loops s = st_loops (sl_stream x)"
      "sl_idx x < length (ReconnectBackoff cfg) \<longrightarrow> sl_idx x' < length (ReconnectBackoff cfg)"
      "if sl_pc x' = LNone then sl_stream x' = loopDone s else sl_stream x' = s"
    unfolding section_ok_def by blast
  have si: "stream_inv s" using streams.inv_steps [OF s(1)] inv by (simp add: sys_inv_def)
  have one: "st_loops s = 1" using inv assms(2) s(2) stream_inv_loops [OF si] by (simp add: sys_inv_def)
  have "stream_inv (loopDone s)" using streams.inv_step [OF si stream_step.step_loop_done] one by simp
  then show ?thesis
    using s(3,4) si one inv by (auto simp: sys_inv_def loopDone_def split: if_splits)
qed

interpretation loops: inductive_invariant loop_init "loop_step cfg" "sys_inv cfg" for cfg
proof
  show "sys_inv cfg x" if "loop_init x" for x
  proof -
    from that have "new_stream (sl_stream x)" by (simp add: loop_init_def)
    then have "stream_inv (sl_stream x)" "st_loops (sl_stream x) = 0"
      using streams.inv_init by (auto simp: new_stream_def NewStream_def)
    with that show ?thesis by (simp add: sys_inv_def loop_init_def)
  qed
  show "sys_inv cfg x'" if inv: "sys_inv cfg x" and "loop_step cfg x x'" for x x'
    using that(2)
  proof cases
    case (loop_own i)
    then show ?thesis using sys_inv_section [OF inv] connectLoop_sections by blast
  next
    case (loop_read now e ev s mt)
    have "stream_inv s" using streams.inv_steps [OF handleEvent_steps [OF loop_read(3)]] inv by (simp add: sys_inv_def)
    with inv loop_read(1,2) handleEvent_loops [OF loop_read(3)] show ?thesis by (simp add: sys_inv_def)
  next
    case (loop_other s)
    then show ?thesis using inv streams.inv_step [OF _ loop_other(2)] by (simp add: sys_inv_def)
  next
    case (loop_started s)
    then show ?thesis using inv streams.inv_step [OF _ loop_started(2)] by (auto simp: sys_inv_def)
  qed
qed

lemma loop_step_stream:
  assumes "sys_inv cfg x" "loop_step cfg x x'"
  shows "(stream_step cfg)\<^sup>*\<^sup>* (sl_stream x) (sl_stream x')"
  using assms(2)
proof cases
  case (loop_own i)
  then obtain s where s: "(stream_step cfg)\<^sup>*\<^sup>* (sl_stream x) s" "st_loops s = st_loops (sl_stream x)"
      "sl_stream x' = loopDone s \<or> sl_stream x' = s"
    using connectLoop_sections unfolding section_ok_def by metis
  have "0 < st_loops s" using assms(1) loop_own(1) s(2) by (simp add: sys_inv_def)
  with s show ?thesis by (metis rtranclp.rtrancl_into_rtrancl stream_step.step_loop_done)
next
  case (loop_read now e ev s mt)
  then show ?thesis using handleEvent_steps by simp
qed auto

section \<open>Runs\<close>

fun loopRun :: "config \<Rightarrow> loop_input list \<Rightarrow> stream_loop \<Rightarrow> stream_loop option" where
  "loopRun cfg [] x = Some x"
| "loopRun cfg (i # is) x =
     (if sl_pc x = LNone then None
      else case connectLoop cfg i x of None \<Rightarrow> None | Some x \<Rightarrow> loopRun cfg is x)"

lemma loopRun_reach:
  "loopRun cfg is x = Some x' \<Longrightarrow> reach loop_init (loop_step cfg) x \<Longrightarrow> reach loop_init (loop_step cfg) x'"
proof (induction "is" arbitrary: x)
  case (Cons i "is")
  then obtain y where y: "sl_pc x \<noteq> LNone" "connectLoop cfg i x = Some y" "loopRun cfg is y = Some x'"
    by (auto split: if_splits option.splits)
  from reach_step [OF Cons.prems(2) loop_own [OF y(1,2)]] show ?case by (rule Cons.IH [OF y(3)])
qed simp

lemma quiet_reach:
  "(quiet_step cfg)\<^sup>*\<^sup>* s t \<Longrightarrow> reach loop_init (loop_step cfg) (x\<lparr>sl_stream := s\<rparr>) \<Longrightarrow>
   reach loop_init (loop_step cfg) (x\<lparr>sl_stream := t\<rparr>)"
proof (induction rule: rtranclp_induct)
  case (step t u)
  then have "loop_step cfg (x\<lparr>sl_stream := t\<rparr>) ((x\<lparr>sl_stream := t\<rparr>)\<lparr>sl_stream := u\<rparr>)"
    by (intro loop_other) (simp_all add: quiet_step_def)
  with step show ?case by (simp add: reach_step)
qed simp

text \<open>A stream on which \<open>Start\<close> has been called, with the loop at its head.\<close>

definition started_loop :: stream_loop where
  "started_loop = \<lparr> sl_pc = LTop, sl_idx = 0, sl_stream = Stream_Start 0 (NewStream DefaultConfig 0 ''cam'' [] [] ''/ch1''),
                    sl_metrics = metrics_zero \<rparr>"

lemma started_reach: "reach loop_init (loop_step cfg) started_loop"
proof -
  let ?x = "\<lparr> sl_pc = LNone, sl_idx = 0, sl_stream = NewStream DefaultConfig 0 ''cam'' [] [] ''/ch1'',
               sl_metrics = metrics_zero \<rparr>"
  have "loop_init ?x" by (auto simp: loop_init_def)
  then have "reach loop_init (loop_step cfg) ?x" by (rule reach_init)
  moreover have "loop_step cfg ?x (?x\<lparr>sl_stream := Stream_Start 0 (sl_stream ?x), sl_pc := LTop, sl_idx := 0\<rparr>)"
    by (intro loop_started stream_step.step_start) (simp add: Stream_Start_def NewStream_def startConnectLoop_def resetIdleTimer_def Let_def)
  ultimately show ?thesis unfolding started_loop_def by (auto dest: reach_step)
qed

definition good_input :: loop_input where
  "good_input = \<lparr> li_now = 1, li_resolve = True, li_net = net_ok, li_script = good_camera, li_read = Some ''EOF'', li_timer = True \<rparr>"

definition refused_input :: loop_input where
  "refused_input = good_input\<lparr>li_net := net_ok\<lparr>ne_dial := Inl ''connection refused''\<rparr>\<rparr>"

section \<open>Properties\<close>

text \<open>
  With a non-empty list of delays the index into it stays in range however the connect loop and the
  other goroutines interleave; so the only place where the loop can panic is the connect sequence. A
  loop runs exactly when the stream's flag says so.
\<close>

theorem connectLoop_in_range:
  assumes "reach loop_init (loop_step cfg) x" "ReconnectBackoff cfg \<noteq> []"
  shows "sl_idx x < length (ReconnectBackoff cfg) \<and>
    (sl_pc x \<noteq> LSequence \<longrightarrow> connectLoop cfg i x \<noteq> None) \<and>
    (st_loopStarted (sl_stream x) \<longleftrightarrow> sl_pc x \<noteq> LNone)"
proof (intro conjI impI)
  note inv = loops.reach_inv [OF assms(1)]
  then show idx: "sl_idx x < length (ReconnectBackoff cfg)" using assms(2) by (simp add: sys_inv_def)
  show "st_loopStarted (sl_stream x) \<longleftrightarrow> sl_pc x \<noteq> LNone"
    using inv by (auto simp: sys_inv_def stream_inv_def loop_inv_def split: if_splits)
  have "loopFailed cfg now s mt x \<noteq> None" for now s mt using idx by (simp add: loopFailed_def)
  then show "connectLoop cfg i x \<noteq> None" if "sl_pc x \<noteq> LSequence"
    using that idx by (auto simp: connectLoop_def Let_def split: loop_pc.split prod.split option.split)
qed

theorem connectLoop_in_range_witness:
  "sl_idx started_loop < length (ReconnectBackoff DefaultConfig) \<and> connectLoop DefaultConfig refused_input started_loop \<noteq> None \<and>
   st_loopStarted (sl_stream started_loop)"
proof -
  have ne: "ReconnectBackoff DefaultConfig \<noteq> []" by (simp add: DefaultConfig_def)
  have pc: "sl_pc started_loop = LTop" by (simp add: started_loop_def)
  show ?thesis using connectLoop_in_range [OF started_reach ne] pc by simp
qed

interpretation stream_loops: simulation loop_init "loop_step cfg" "sys_inv cfg" sl_stream new_stream "stream_step cfg" for cfg
  by unfold_locales (auto simp: loop_init_def intro: loop_step_stream)





end
