(* ===== verification/Stream_Manager.thy ===== *)
theory Stream_Manager
  imports Stream_System
begin

text \<open>
  The stream manager (\<open>stream_manager.go\<close>): the registry of streams by target and credentials, the
  gauge of active streams, and the shutdown. A stream is a number into a store, because clients keep
  pointers to streams that the registry has dropped. The properties: a target always gives the same
  stream, different credentials never share one unless their keys collide, and the shutdown destroys
  every stream.
\<close>

section \<open>Definitions\<close>

record manager =
  sm_streams :: "(string, nat) gomap"
  sm_store :: "(nat, string \<times> stream) gomap"
  sm_next :: nat
  sm_serverDone :: bool
  sm_metrics :: metrics

definition NewStreamManager :: manager where
  "NewStreamManager = \<lparr> sm_streams = [], sm_store = [], sm_next = 0, sm_serverDone = False, sm_metrics = metrics_zero \<rparr>"

text \<open>Who is asked for: host, user name, password, path; and the key that stands for it.\<close>

type_synonym target = "string \<times> string \<times> string \<times> string"

fun streamKey :: "target \<Rightarrow> string" where
  "streamKey (host, username, password, path) = username @ '':'' @ password @ ''@'' @ host @ path"

definition addActiveStreams :: "int \<Rightarrow> metrics \<Rightarrow> metrics" where
  "addActiveStreams n mt = mt\<lparr>m_ActiveStreams := wrap64 (m_ActiveStreams mt + n)\<rparr>"

fun GetStream :: "config \<Rightarrow> int \<Rightarrow> target \<Rightarrow> manager \<Rightarrow> nat \<times> manager" where
  "GetStream cfg now (host, username, password, path) m =
     (let key = streamKey (host, username, password, path)
      in case mget (sm_streams m) key of
           Some n \<Rightarrow> (n, m)
         | None \<Rightarrow>
             (let n = sm_next m;
                  stream = (NewStream cfg now host username password path)\<lparr>st_ctxDone := sm_serverDone m\<rparr>
              in (n, m\<lparr>sm_streams := mput key n (sm_streams m), sm_store := mput n (key, stream) (sm_store m),
                       sm_next := n + 1, sm_metrics := addActiveStreams 1 (sm_metrics m)\<rparr>)))"

definition RemoveStream :: "string \<Rightarrow> manager \<Rightarrow> manager" where
  "RemoveStream key m = m\<lparr>sm_streams := mdel key (sm_streams m)\<rparr>"

text \<open>The callback that \<open>GetStream\<close> installs.\<close>

definition onDestroy :: "string \<Rightarrow> manager \<Rightarrow> manager" where
  "onDestroy key m = (RemoveStream key m)\<lparr>sm_metrics := addActiveStreams (- 1) (sm_metrics m)\<rparr>"

definition setStream :: "nat \<Rightarrow> stream \<Rightarrow> manager \<Rightarrow> manager" where
  "setStream n s m =
     (case mget (sm_store m) n of None \<Rightarrow> m | Some (key, _) \<Rightarrow> m\<lparr>sm_store := mput n (key, s) (sm_store m)\<rparr>)"

definition getStream :: "nat \<Rightarrow> manager \<Rightarrow> stream option" where
  "getStream n m = map_option snd (mget (sm_store m) n)"

text \<open>\<open>Destroy\<close> of a stream of the manager, with its callback.\<close>

definition destroyStream :: "net_env \<Rightarrow> int \<Rightarrow> nat \<Rightarrow> manager \<Rightarrow> manager option" where
  "destroyStream e now n m =
     (case mget (sm_store m) n of
        None \<Rightarrow> None
      | Some (key, s) \<Rightarrow>
          (case Stream_Destroy e now s (sm_metrics m) of
             None \<Rightarrow> None
           | Some (s, mt) \<Rightarrow> Some (onDestroy key (setStream n s (m\<lparr>sm_metrics := mt\<rparr>)))))"

fun destroyAll :: "net_env \<Rightarrow> int \<Rightarrow> nat list \<Rightarrow> manager \<Rightarrow> manager option" where
  "destroyAll e now [] m = Some m"
| "destroyAll e now (n # ns) m =
     (case destroyStream e now n m of None \<Rightarrow> None | Some m \<Rightarrow> destroyAll e now ns m)"

definition Manager_Shutdown :: "net_env \<Rightarrow> int \<Rightarrow> manager \<Rightarrow> manager option" where
  "Manager_Shutdown e now m = destroyAll e now (map snd (sm_streams m)) m"

text \<open>The end of the server's context is the end of the context of every stream.\<close>

definition cancelServer :: "manager \<Rightarrow> manager" where
  "cancelServer m =
     m\<lparr>sm_serverDone := True, sm_store := map (\<lambda>(n, (key, s)). (n, (key, s\<lparr>st_ctxDone := True\<rparr>))) (sm_store m)\<rparr>"

section \<open>The manager as a transition system\<close>

text \<open>
  A lookup, a step of one of the streams, the destruction of a registered stream, the end of the
  server's context, and a change of the counters that are not the manager's.
\<close>

inductive manager_step :: "config \<Rightarrow> manager \<Rightarrow> manager \<Rightarrow> bool" for cfg where
  manager_get: "manager_step cfg m (snd (GetStream cfg now target m))"
| manager_stream: "mget (sm_store m) n = Some (key, s) \<Longrightarrow> stream_step cfg s s' \<Longrightarrow> manager_step cfg m (setStream n s' m)"
| manager_destroy: "n \<in> set (map snd (sm_streams m)) \<Longrightarrow> destroyStream e now n m = Some m' \<Longrightarrow> manager_step cfg m m'"
| manager_cancel: "manager_step cfg m (cancelServer m)"
| manager_metrics: "m_ActiveStreams mt = m_ActiveStreams (sm_metrics m) \<Longrightarrow> manager_step cfg m (m\<lparr>sm_metrics := mt\<rparr>)"

text \<open>
  The invariant: a registered stream is in the store under its own key, which is made from its target
  and credentials, the store has no stream with a number still to come, and every stream satisfies its
  invariant. The gauge is the number of
  registered streams as long as that number fits into 64 bits.
\<close>

definition ident :: "stream \<Rightarrow> target" where
  "ident s = (st_Host s, st_Username s, st_Password s, st_Path s)"

definition manager_inv :: "manager \<Rightarrow> bool" where
  "manager_inv m =
     (gomap_wf (sm_streams m) \<and>
      (\<forall>key n. mget (sm_streams m) key = Some n \<longrightarrow> (\<exists>s. mget (sm_store m) n = Some (key, s))) \<and>
      (\<forall>n key s. mget (sm_store m) n = Some (key, s) \<longrightarrow> n < sm_next m \<and> stream_inv s \<and> key = streamKey (ident s)) \<and>
      m_ActiveStreams (sm_metrics m) = wrap64 (int (length (sm_streams m))))"

lemma manager_invI:
  assumes "gomap_wf (sm_streams m)"
    and "\<And>key n. mget (sm_streams m) key = Some n \<Longrightarrow> \<exists>s. mget (sm_store m) n = Some (key, s)"
    and "\<And>n key s. mget (sm_store m) n = Some (key, s) \<Longrightarrow> n < sm_next m \<and> stream_inv s \<and> key = streamKey (ident s)"
    and "m_ActiveStreams (sm_metrics m) = wrap64 (int (length (sm_streams m)))"
  shows "manager_inv m"
  using assms unfolding manager_inv_def by blast

lemma manager_invD:
  assumes "manager_inv m"
  shows "gomap_wf (sm_streams m)"
    "mget (sm_streams m) key = Some n \<Longrightarrow> \<exists>s. mget (sm_store m) n = Some (key, s)"
    "mget (sm_store m) n = Some (key, s) \<Longrightarrow> n < sm_next m"
    "mget (sm_store m) n = Some (key, s) \<Longrightarrow> stream_inv s"
    "m_ActiveStreams (sm_metrics m) = wrap64 (int (length (sm_streams m)))"
    "mget (sm_store m) n = Some (key, s) \<Longrightarrow> key = streamKey (ident s)"
  using assms unfolding manager_inv_def by blast+

lemma wrap64_add: "wrap64 (wrap64 a + b) = wrap64 (a + b)"
  using signed_take_bit_add [of 63 "signed_take_bit 63 a" b] signed_take_bit_add [of 63 a b]
  unfolding wrap64_def by (simp add: signed_take_bit_signed_take_bit)

lemma length_mput_new: "mget m k = None \<Longrightarrow> length (mput k v m) = length m + 1"
  by (induction m) (auto split: if_splits)

lemma mdel_none: "k \<notin> fst ` set m \<Longrightarrow> mdel k m = m"
  by (induction m) (auto simp: AList.delete_eq)

lemma length_mdel: "gomap_wf m \<Longrightarrow> mget m k = Some v \<Longrightarrow> length m = length (mdel k m) + 1"
  by (induction m) (auto simp: mdel_none split: if_splits)

subsection \<open>The gauge\<close>

lemma dialLocked_gauge: "dialLocked e r mt = (err, r', mt') \<Longrightarrow> m_ActiveStreams mt' = m_ActiveStreams mt"
  by (auto simp: dialLocked_def Let_def split: if_splits sum.splits prod.splits)

lemma SendRequest_gauge: "SendRequest e rid r mt = Some (err, r', mt') \<Longrightarrow> m_ActiveStreams mt' = m_ActiveStreams mt"
  by (cases "if rm_conn r then (None, r, mt) else dialLocked e r mt")
    (auto simp: SendRequest_def Let_def dest: dialLocked_gauge split: if_splits option.splits prod.splits)

lemma teardownAll_gauge: "teardownAll e path sids r mt = Some (r', mt') \<Longrightarrow> m_ActiveStreams mt' = m_ActiveStreams mt"
proof (induction sids arbitrary: r mt)
  case (Cons sid sids)
  then obtain err r1 mt1 where 1: "SendTeardown e path sid r mt = Some (err, r1, mt1)"
      "teardownAll e path sids r1 mt1 = Some (r', mt')"
    by (auto split: option.splits)
  have "m_ActiveStreams mt1 = m_ActiveStreams mt"
    using 1(1) by (auto simp: SendTeardown_def Let_def dest: SendRequest_gauge split: prod.splits)
  with Cons.IH [OF 1(2)] show ?case by simp
qed simp

lemma Stream_Destroy_gauge:
  assumes "Stream_Destroy e now s mt = Some (s', mt')"
  shows "m_ActiveStreams mt' = m_ActiveStreams mt"
proof -
  let ?s = "(snd (transition now StateDestroyed s))\<lparr>st_ctxDone := True\<rparr>"
  have "(case st_remote ?s of None \<Rightarrow> Some mt
      | Some r \<Rightarrow> map_option snd (teardownAll e (st_Path ?s) (map fst (st_sessions ?s)) r mt)) = Some mt'"
    using assms unfolding Stream_Destroy_def Let_def by (simp only: split: option.splits prod.splits) simp_all
  then show ?thesis by (auto dest: teardownAll_gauge split: option.splits)
qed

subsection \<open>Preservation\<close>

lemma manager_inv_get:
  assumes inv: "manager_inv m"
  shows "manager_inv (snd (GetStream cfg now target m))"
proof -
  obtain host user pass path where target: "target = (host, user, pass, path)" by (cases target)
  show ?thesis
  proof (cases "mget (sm_streams m) (streamKey target)")
    case (Some n)
    then show ?thesis using inv by (simp add: target)
  next
    case None
    let ?key = "streamKey target"
    let ?s = "(NewStream cfg now host user pass path)\<lparr>st_ctxDone := sm_serverDone m\<rparr>"
    have "stream_inv (NewStream cfg now host user pass path)" by (rule streams.inv_init) simp
    then have new: "stream_inv ?s"
      by (simp add: stream_inv_def signals_inv_def signals_shape_def signals_state_def isClosed_def loop_inv_def clients_inv_def)
    have id: "ident ?s = target" by (simp add: ident_def NewStream_def target)
    have fresh: "mget (sm_store m) (sm_next m) = None"
      using manager_invD(3) [OF inv] by (metis less_irrefl not_None_eq surj_pair)
    have len: "length (mput ?key (sm_next m) (sm_streams m)) = length (sm_streams m) + 1"
      by (rule length_mput_new [OF None])
    let ?m = "snd (GetStream cfg now target m)"
    have eq: "sm_streams ?m = mput ?key (sm_next m) (sm_streams m)"
        "sm_store ?m = mput (sm_next m) (?key, ?s) (sm_store m)" "sm_next ?m = sm_next m + 1"
        "sm_metrics ?m = addActiveStreams 1 (sm_metrics m)"
      using None by (simp_all add: target Let_def)
    show ?thesis
    proof (rule manager_invI)
      show "gomap_wf (sm_streams ?m)" using manager_invD(1) [OF inv] by (simp add: eq(1) distinct_update)
      show "\<exists>s. mget (sm_store ?m) n = Some (key, s)" if "mget (sm_streams ?m) key = Some n" for key n
        using that manager_invD(2) [OF inv, of key n] fresh by (auto simp: eq(1,2) split: if_splits)
      show "n < sm_next ?m \<and> stream_inv s \<and> key = streamKey (ident s)" if "mget (sm_store ?m) n = Some (key, s)" for n key s
        using that manager_invD(3,4,6) [OF inv, of n key s] new id by (auto simp: eq(2,3) split: if_splits)
      show "m_ActiveStreams (sm_metrics ?m) = wrap64 (int (length (sm_streams ?m)))"
        using manager_invD(5) [OF inv] wrap64_add [of "int (length (sm_streams m))" 1]
        by (simp add: eq(1,4) len addActiveStreams_def add.commute)
    qed
  qed
qed

lemma setStream_simps [simp]:
  "sm_streams (setStream n s m) = sm_streams m" "sm_next (setStream n s m) = sm_next m"
  "sm_metrics (setStream n s m) = sm_metrics m" "sm_serverDone (setStream n s m) = sm_serverDone m"
  by (auto simp: setStream_def split: option.split)

lemma setStream_store:
  "mget (sm_store (setStream n s m)) n' =
     (if n' = n then map_option (\<lambda>(key, _). (key, s)) (mget (sm_store m) n) else mget (sm_store m) n')"
  by (auto simp: setStream_def split: option.split)

lemma manager_inv_set:
  assumes inv: "manager_inv m" and "mget (sm_store m) n = Some (key, s0)" "stream_inv s" "ident s = ident s0"
  shows "manager_inv (setStream n s m)"
proof (rule manager_invI)
  show "\<exists>s'. mget (sm_store (setStream n s m)) n' = Some (key, s')"
    if "mget (sm_streams (setStream n s m)) key = Some n'" for key n'
    using that manager_invD(2) [OF inv, of key n'] by (auto simp: setStream_store)
  show "n' < sm_next (setStream n s m) \<and> stream_inv s' \<and> key' = streamKey (ident s')"
    if "mget (sm_store (setStream n s m)) n' = Some (key', s')" for n' key' s'
    using that manager_invD(3,4,6) [OF inv] assms(2-4) by (auto simp: setStream_store split: if_splits)
qed (use manager_invD(1,5) [OF inv] in simp_all)

lemma manager_inv_onDestroy:
  assumes inv: "manager_inv m" and key: "mget (sm_streams m) key = Some n"
  shows "manager_inv (onDestroy key m)"
proof (rule manager_invI)
  show "gomap_wf (sm_streams (onDestroy key m))"
    using manager_invD(1) [OF inv] by (simp add: onDestroy_def RemoveStream_def distinct_delete)
  show "\<exists>s. mget (sm_store (onDestroy key m)) n' = Some (key', s)" if "mget (sm_streams (onDestroy key m)) key' = Some n'" for key' n'
    using that manager_invD(2) [OF inv, of key' n'] by (auto simp: onDestroy_def RemoveStream_def split: if_splits)
  show "n' < sm_next (onDestroy key m) \<and> stream_inv s \<and> key' = streamKey (ident s)"
    if "mget (sm_store (onDestroy key m)) n' = Some (key', s)" for n' key' s
    using that manager_invD(3,4,6) [OF inv, of n' key' s] by (auto simp: onDestroy_def RemoveStream_def)
  have "int (length (sm_streams m)) = int (length (mdel key (sm_streams m))) + 1"
    using length_mdel [OF manager_invD(1) [OF inv] key] by simp
  then show "m_ActiveStreams (sm_metrics (onDestroy key m)) = wrap64 (int (length (sm_streams (onDestroy key m))))"
    using manager_invD(5) [OF inv]
      wrap64_add [of "int (length (sm_streams m))" "- 1"] by (simp add: onDestroy_def RemoveStream_def addActiveStreams_def)
qed

text \<open>What the destruction of a registered stream does.\<close>

lemma destroyStream_eq:
  assumes inv: "manager_inv m" and key: "mget (sm_streams m) key = Some n" and "destroyStream e now n m = Some m'"
  obtains s s' mt where "mget (sm_store m) n = Some (key, s)" "Stream_Destroy e now s (sm_metrics m) = Some (s', mt)"
    "m' = onDestroy key (setStream n s' (m\<lparr>sm_metrics := mt\<rparr>))"
proof -
  obtain s where s: "mget (sm_store m) n = Some (key, s)" using manager_invD(2) [OF inv key] by blast
  with assms(3) obtain s' mt where "Stream_Destroy e now s (sm_metrics m) = Some (s', mt)"
      "m' = onDestroy key (setStream n s' (m\<lparr>sm_metrics := mt\<rparr>))"
    by (auto simp: destroyStream_def split: option.splits)
  with s show ?thesis by (rule that)
qed

lemma AddClient_ident: "AddClient cfg client sid s = Some (cs, s') \<Longrightarrow> ident s' = ident s"
  by (auto simp: AddClient_def ident_def stopIdleTimer_def startConnectLoop_def Let_def split: option.splits if_splits)

lemma RemoveClient_ident: "RemoveClient now client s = Some s' \<Longrightarrow> ident s' = ident s"
  by (auto simp: RemoveClient_def ident_def resetIdleTimer_def split: option.splits if_splits)

lemma dispatch_ident: "dispatch cfg now channel packet s mt = Some (s', mt') \<Longrightarrow> ident s' = ident s"
  by (auto simp: dispatch_def ident_def Let_def split: if_splits)

lemma unsafeSetState_ident: "ident (unsafeSetState now to s) = ident s"
  by (simp add: unsafeSetState_def ident_def closeOnce_def freshSignals_def Let_def)

lemma other_idents:
  "ident (snd (transition now to s)) = ident s" "ident (Stream_Start now s) = ident s" "ident (publishSDP sdp s) = ident s"
  "ident (loopDone s) = ident s" "ident (snd (LookupSession args sid s)) = ident s" "ident (MapChannel client up down s) = ident s"
  "ident (Destroy_detach s) = ident s"
  using unsafeSetState_ident
  by (simp_all add: transition_def Stream_Start_def publishSDP_def loopDone_def LookupSession_def MapChannel_def Destroy_detach_def
      stopIdleTimer_def resetIdleTimer_def startConnectLoop_def closeOnce_def ident_def Let_def split: option.split)

lemma stream_step_ident: "stream_step cfg s t \<Longrightarrow> ident t = ident s"
  by (induction rule: stream_step.induct)
    (simp_all add: other_idents AddClient_ident RemoveClient_ident dispatch_ident, simp_all add: ident_def)

lemma Stream_Destroy_ident: "Stream_Destroy e now s mt = Some (s', mt') \<Longrightarrow> ident s' = ident s"
  by (auto dest!: Stream_Destroy_eq simp: other_idents) (simp add: ident_def other_idents [unfolded ident_def])

lemma Stream_Destroy_inv: "stream_inv s \<Longrightarrow> Stream_Destroy e now s mt = Some (s', mt') \<Longrightarrow> stream_inv s'"
proof -
  assume "stream_inv s" and d: "Stream_Destroy e now s mt = Some (s', mt')"
  have "(stream_step cfg)\<^sup>*\<^sup>* s s'" for cfg
    using Stream_Destroy_steps [OF d, of cfg] by (rule rtranclp_mono [THEN predicate2D, rotated]) (auto simp: quiet_step_def)
  then show ?thesis using \<open>stream_inv s\<close> by (rule streams.inv_steps)
qed

lemma manager_inv_destroy:
  assumes inv: "manager_inv m" and key: "mget (sm_streams m) key = Some n" and "destroyStream e now n m = Some m'"
  shows "manager_inv m'"
proof -
  from destroyStream_eq [OF assms] obtain s s' mt where d: "mget (sm_store m) n = Some (key, s)"
      "Stream_Destroy e now s (sm_metrics m) = Some (s', mt)" "m' = onDestroy key (setStream n s' (m\<lparr>sm_metrics := mt\<rparr>))" .
  have "manager_inv (m\<lparr>sm_metrics := mt\<rparr>)"
    using inv Stream_Destroy_gauge [OF d(2)] by (simp add: manager_inv_def)
  then have "manager_inv (setStream n s' (m\<lparr>sm_metrics := mt\<rparr>))"
    by (rule manager_inv_set) (use d Stream_Destroy_inv [OF manager_invD(4) [OF inv d(1)] d(2)] Stream_Destroy_ident [OF d(2)] in auto)
  then show ?thesis unfolding d(3) by (rule manager_inv_onDestroy) (use key in simp)
qed

lemma cancelServer_streams [simp]: "sm_streams (cancelServer m) = sm_streams m"
  by (simp add: cancelServer_def)

lemma manager_inv_cancel: "manager_inv m \<Longrightarrow> manager_inv (cancelServer m)"
proof -
  assume inv: "manager_inv m"
  have store: "mget (sm_store (cancelServer m)) n = map_option (\<lambda>(key, s). (key, s\<lparr>st_ctxDone := True\<rparr>)) (mget (sm_store m) n)"
    for n by (simp add: cancelServer_def map_of_map_snd [symmetric] case_prod_unfold)
  show ?thesis
  proof (rule manager_invI)
    show "\<exists>s. mget (sm_store (cancelServer m)) n = Some (key, s)" if "mget (sm_streams (cancelServer m)) key = Some n" for key n
      using that manager_invD(2) [OF inv, of key n] by (auto simp: store)
    show "n < sm_next (cancelServer m) \<and> stream_inv s \<and> key = streamKey (ident s)"
      if "mget (sm_store (cancelServer m)) n = Some (key, s)" for n key s
      using that manager_invD(3,4,6) [OF inv, of n] streams.inv_step [OF _ stream_step.step_cancel]
      by (auto simp: store) (simp_all add: cancelServer_def ident_def)
  qed (use manager_invD(1,5) [OF inv] in \<open>simp_all add: cancelServer_def\<close>)
qed

lemma mget_in_snd: "gomap_wf m \<Longrightarrow> n \<in> set (map snd m) \<Longrightarrow> \<exists>key. mget m key = Some n"
  by (metis (no_types, lifting) image_iff list.set_map map_of_eq_Some_iff prod.collapse)

interpretation managers: inductive_invariant "\<lambda>m. m = NewStreamManager" "manager_step cfg" manager_inv for cfg
proof
  show "manager_inv m" if "m = NewStreamManager" for m
    using that by (simp add: manager_inv_def NewStreamManager_def metrics_zero_def wrap64_def)
  show "manager_inv m'" if inv: "manager_inv m" and "manager_step cfg m m'" for m m'
    using that(2)
  proof cases
    case (manager_get now target)
    then show ?thesis using manager_inv_get [OF inv] by simp
  next
    case (manager_stream n key s s')
    then show ?thesis using manager_inv_set [OF inv] streams.inv_step manager_invD(4) [OF inv] stream_step_ident by blast
  next
    case (manager_destroy n e now)
    then show ?thesis using manager_inv_destroy [OF inv] mget_in_snd [OF manager_invD(1) [OF inv]] by blast
  next
    case manager_cancel
    then show ?thesis using manager_inv_cancel [OF inv] by simp
  next
    case (manager_metrics mt)
    then show ?thesis using inv by (simp add: manager_inv_def)
  qed
qed

text \<open>The manager is a registry; its keys are targets, and two targets may have the same key string.\<close>

interpretation managed: find_or_create "\<lambda>m target. mget (sm_streams m) (streamKey target)" "GetStream cfg now" manager_inv for cfg now
proof
  fix m and k :: target
  obtain host user pass path where k: "k = (host, user, pass, path)" by (cases k)
  show "manager_inv m \<Longrightarrow> mget (sm_streams m) (streamKey k) = Some v \<Longrightarrow> GetStream cfg now k m = (v, m)" for v
    by (simp add: k)
  show "manager_inv m \<Longrightarrow> mget (sm_streams m) (streamKey k) = None \<Longrightarrow>
      mget (sm_streams (snd (GetStream cfg now k m))) (streamKey k) = Some (fst (GetStream cfg now k m))"
    by (simp add: k Let_def)
  show "manager_inv m \<Longrightarrow> mget (sm_streams m) (streamKey k') = Some v \<Longrightarrow>
      mget (sm_streams (snd (GetStream cfg now k m))) (streamKey k') = Some v" for k' v
    by (auto simp: k Let_def split: option.splits)
  show "manager_inv m \<Longrightarrow> manager_inv (snd (GetStream cfg now k m))" by (rule manager_inv_get)
qed

section \<open>Keys\<close>

text \<open>
  A target whose key can be taken apart again: no colon in the user name, no at sign in the password,
  no slash in the host, and an absolute path.
\<close>

fun separable :: "target \<Rightarrow> bool" where
  "separable (host, username, password, path) =
     (CHR '':'' \<notin> set username \<and> CHR ''@'' \<notin> set password \<and> CHR ''/'' \<notin> set host \<and>
      (path = [] \<or> hd path = CHR ''/''))"

lemma append_sep_eq: "c \<notin> set a \<Longrightarrow> c \<notin> set a' \<Longrightarrow> a @ c # b = a' @ c # b' \<longleftrightarrow> a = a' \<and> b = b'"
proof (induction a arbitrary: a')
  case Nil
  then show ?case by (cases a') auto
next
  case (Cons x a)
  then show ?case by (cases a') auto
qed

lemma host_path_eq:
  assumes "CHR ''/'' \<notin> set h" "CHR ''/'' \<notin> set h'" "p = [] \<or> hd p = CHR ''/''" "p' = [] \<or> hd p' = CHR ''/''"
    and "h @ p = h' @ p'"
  shows "h = h' \<and> p = p'"
proof -
  have tw: "takeWhile (\<lambda>c. c \<noteq> CHR ''/'') (x @ q) = x" if "CHR ''/'' \<notin> set x" "q = [] \<or> hd q = CHR ''/''" for x q
    using that by (cases q) (auto simp: takeWhile_append2 takeWhile_append)
  from tw [OF assms(1,3)] tw [OF assms(2,4)] assms(5) show ?thesis by simp
qed

lemma streamKey_inj: "separable t \<Longrightarrow> separable t' \<Longrightarrow> streamKey t = streamKey t' \<Longrightarrow> t = t'"
  by (cases t; cases t') (auto simp: append_sep_eq dest: host_path_eq)

lemma GetStream_ident:
  assumes inv: "manager_inv m"
    and "\<forall>n s. getStream n m = Some s \<longrightarrow> separable (ident s)" and "separable target"
    and "GetStream cfg now target m = (n, m')"
  shows "\<exists>s. getStream n m' = Some s \<and> ident s = target"
proof -
  have inv': "manager_inv m'" using managed.goc_ok [OF inv, of cfg now target] assms(4) by simp
  have "mget (sm_streams m') (streamKey target) = Some n"
    using managed.goc_look [OF inv, of cfg now target] assms(4) by simp
  then obtain s where s: "mget (sm_store m') n = Some (streamKey target, s)" using manager_invD(2) [OF inv'] by blast
  have key: "streamKey target = streamKey (ident s)" by (rule manager_invD(6) [OF inv' s])
  have "ident s = target"
  proof (cases "mget (sm_streams m) (streamKey target)")
    case (Some n0)
    with managed.goc_found [OF inv Some, of cfg now] assms(4) have "m' = m" by simp
    with s have "getStream n m = Some s" by (simp add: getStream_def)
    with assms(2) have "separable (ident s)" by blast
    then show ?thesis using streamKey_inj [OF assms(3) _ key] by simp
  next
    case None
    with assms(4) s show ?thesis by (cases target) (auto simp: Let_def ident_def NewStream_def)
  qed
  with s show ?thesis by (simp add: getStream_def)
qed

section \<open>Shutdown\<close>

definition torn_down :: "stream \<Rightarrow> bool" where
  "torn_down s = (st_state s = StateDestroyed \<and> st_ctxDone s \<and> st_remote s = None \<and> st_clients s = [] \<and> st_sessions s = [] \<and>
     isClosed (ReadyCh s) s \<and> isClosed (SDPReadyCh s) s)"

lemma Stream_Destroy_torn:
  assumes "stream_inv s" "Stream_Destroy e now s mt = Some (s', mt')"
  shows "torn_down s'"
proof -
  have eq: "s' = Destroy_detach ((snd (transition now StateDestroyed s))\<lparr>st_ctxDone := True\<rparr>)" by (rule Stream_Destroy_eq [OF assms(2)])
  have "st_state (snd (transition now StateDestroyed s)) = StateDestroyed"
    using assms(1) by (auto simp: transition_def validTransition_def unsafeSetState_state stream_inv_def signals_inv_def
        signals_state_def split: stream_state.splits)
  then have "st_state s' = StateDestroyed" by (simp add: eq Destroy_detach_def stopIdleTimer_def)
  moreover have "signals_inv s'" using Stream_Destroy_inv [OF assms] by (simp add: stream_inv_def)
  ultimately show ?thesis
    by (simp add: torn_down_def signals_inv_def signals_state_def ReadyCh_def SDPReadyCh_def) (simp add: eq Destroy_detach_def stopIdleTimer_def)
qed

lemma destroyStream_other:
  assumes "manager_inv m" "mget (sm_streams m) key = Some n" "destroyStream e now n m = Some m'"
  shows "sm_streams m' = mdel key (sm_streams m)" "n' \<noteq> n \<Longrightarrow> getStream n' m' = getStream n' m"
    "\<exists>s. getStream n m' = Some s \<and> torn_down s"
proof -
  from destroyStream_eq [OF assms] obtain s s' mt where d: "mget (sm_store m) n = Some (key, s)"
      "Stream_Destroy e now s (sm_metrics m) = Some (s', mt)" "m' = onDestroy key (setStream n s' (m\<lparr>sm_metrics := mt\<rparr>))" .
  show "sm_streams m' = mdel key (sm_streams m)" by (simp add: d(3) onDestroy_def RemoveStream_def)
  show "getStream n' m' = getStream n' m" if "n' \<noteq> n"
    using that by (simp add: d(3) onDestroy_def RemoveStream_def getStream_def setStream_store)
  have "torn_down s'" by (rule Stream_Destroy_torn [OF manager_invD(4) [OF assms(1) d(1)] d(2)])
  then show "\<exists>s. getStream n m' = Some s \<and> torn_down s"
    using d(1) by (simp add: d(3) onDestroy_def RemoveStream_def getStream_def setStream_store)
qed

lemma managed_distinct: "manager_inv m \<Longrightarrow> distinct (map snd (sm_streams m))"
proof -
  assume inv: "manager_inv m"
  have "inj_on snd (set (sm_streams m))"
  proof (rule inj_onI, clarsimp)
    fix k k' n assume "(k, n) \<in> set (sm_streams m)" "(k', n) \<in> set (sm_streams m)"
    then have "mget (sm_streams m) k = Some n" "mget (sm_streams m) k' = Some n"
      using manager_invD(1) [OF inv] by (auto simp: map_of_eq_Some_iff)
    then show "k = k'" using manager_invD(2) [OF inv, of k n] manager_invD(2) [OF inv, of k' n] by auto
  qed
  then show ?thesis using manager_invD(1) [OF inv] by (simp add: distinct_map)
qed

lemma destroyAll_torn:
  assumes "manager_inv m" "destroyAll e now (map snd (sm_streams m)) m = Some m'"
  shows "sm_streams m' = [] \<and> manager_inv m' \<and>
    (\<forall>n. n \<in> set (map snd (sm_streams m)) \<longrightarrow> (\<exists>s. getStream n m' = Some s \<and> torn_down s)) \<and>
    (\<forall>n. n \<notin> set (map snd (sm_streams m)) \<longrightarrow> getStream n m' = getStream n m)"
  using assms
proof (induction "sm_streams m" arbitrary: m)
  case Nil
  then show ?case by auto
next
  case (Cons kn rest)
  obtain key n where kn: "kn = (key, n)" by (cases kn)
  have get: "mget (sm_streams m) key = Some n" using Cons(2) by (simp add: kn flip: Cons(2))
  from Cons(2,4) kn obtain m1 where m1: "destroyStream e now n m = Some m1" "destroyAll e now (map snd rest) m1 = Some m'"
    by (auto simp flip: Cons(2) split: option.splits)
  note d = destroyStream_other [OF Cons(3) get m1(1)]
  have rest: "rest = sm_streams m1"
    using d(1) manager_invD(1) [OF Cons(3)] by (auto simp: kn mdel_none simp flip: Cons(2))
  note IH = Cons(1) [OF rest manager_inv_destroy [OF Cons(3) get m1(1)] m1(2) [unfolded rest]]
  have "n \<notin> set (map snd (sm_streams m1))"
    using managed_distinct [OF Cons(3)] by (simp add: kn rest flip: Cons(2))
  with IH d(2,3) show ?case by (auto simp: kn rest simp flip: Cons(2))
qed

section \<open>Properties\<close>

text \<open>
  C26. All clients that ask for the same target with the same credentials share one stream: the stream
  that a lookup gives is the one that every later lookup gives, whatever is looked up in between; and
  the gauge of active streams is the number of registered streams.
\<close>

theorem GetStream_shared:
  assumes "reach (\<lambda>m. m = NewStreamManager) (manager_step cfg) m"
    and "m' = fold (\<lambda>t m. snd (GetStream cfg now t m)) targets (snd (GetStream cfg now target m))"
  shows "fst (GetStream cfg now target m') = fst (GetStream cfg now target m) \<and>
    m_ActiveStreams (sm_metrics m') = wrap64 (int (length (sm_streams m')))"
proof -
  have inv: "manager_inv m" by (rule managers.reach_inv [OF assms(1)])
  then have "manager_inv m'" unfolding assms(2) by (intro managed.gocs_ok managed.goc_ok)
  then show ?thesis
    using managed.goc_stable [OF inv, of cfg now target targets] manager_invD(5) by (simp add: assms(2))
qed

lemma manager_start: "reach (\<lambda>m. m = NewStreamManager) (manager_step cfg) NewStreamManager"
  by (rule reach_init) simp

theorem GetStream_shared_witness:
  "fst (GetStream DefaultConfig 0 (''cam'', [], [], ''/1'')
     (snd (GetStream DefaultConfig 0 (''cam'', [], [], ''/2'') (snd (GetStream DefaultConfig 0 (''cam'', [], [], ''/1'') NewStreamManager))))) = 0"
  using GetStream_shared [OF manager_start refl, of DefaultConfig 0 "(''cam'', [], [], ''/1'')" "[(''cam'', [], [], ''/2'')]"]
  by (simp add: NewStreamManager_def Let_def)

text \<open>
  C12. Isolation: when the targets asked for have keys that can be taken apart, a client gets a stream
  with exactly the host, the credentials and the path it asked for, never one that was opened with
  other credentials.
\<close>

theorem streams_isolated:
  assumes "reach (\<lambda>m. m = NewStreamManager) (manager_step cfg) m"
    and "\<forall>n s. getStream n m = Some s \<longrightarrow> separable (ident s)" and "separable target"
    and "GetStream cfg now target m = (n, m')"
  shows "\<exists>s. getStream n m' = Some s \<and> ident s = target"
  using GetStream_ident [OF managers.reach_inv [OF assms(1)] assms(2-4)] .

theorem streams_isolated_witness:
  "\<exists>s. getStream 0 (snd (GetStream DefaultConfig 0 (''cam'', ''admin'', ''secret'', ''/1'') NewStreamManager)) = Some s \<and>
     ident s = (''cam'', ''admin'', ''secret'', ''/1'')"
proof -
  have "\<forall>n s. getStream n NewStreamManager = Some s \<longrightarrow> separable (ident s)" by (simp add: getStream_def NewStreamManager_def)
  moreover have "GetStream DefaultConfig 0 (''cam'', ''admin'', ''secret'', ''/1'') NewStreamManager =
      (0, snd (GetStream DefaultConfig 0 (''cam'', ''admin'', ''secret'', ''/1'') NewStreamManager))"
    by (simp add: NewStreamManager_def Let_def)
  ultimately show ?thesis
    using streams_isolated [OF manager_start, of "(''cam'', ''admin'', ''secret'', ''/1'')" DefaultConfig 0 0] by simp
qed

text \<open>
  The keys of the registry are not unique: user \<open>a\<close> with password \<open>b:c\<close> gets the stream that was
  opened for user \<open>a:b\<close> with password \<open>c\<close>.
\<close>

theorem stream_keys_collide:
  "let (n, m) = GetStream DefaultConfig 0 (''cam'', ''a:b'', ''c'', ''/1'') NewStreamManager;
       (n', m') = GetStream DefaultConfig 1 (''cam'', ''a'', ''b:c'', ''/1'') m
   in n' = n \<and> m' = m \<and> map_option st_Username (getStream n' m') = Some ''a:b''"
  by (simp add: NewStreamManager_def Let_def getStream_def NewStream_def)



end
