(* ===== verification/Rtsp_Client.thy ===== *)
theory Rtsp_Client
  imports Stream_Manager Rtsp_Upstream
begin

text \<open>
  A client of the proxy (\<open>client.go\<close>): the connection, its writer, the parsing of what the client
  sends, the resolution of the target, and the handlers of the RTSP methods. A handler that waits is
  given the way its \<open>select\<close> ends and what the other goroutines do to the stream meanwhile. A panic is
  \<open>None\<close>.
\<close>

section \<open>The connection\<close>

text \<open>
  The write channel, whether the writer still writes (afterwards it only empties the channel), what has
  been written to the socket, and the target of the client. The stream is a number of the manager.
\<close>

record client =
  cl_localAddr :: string
  cl_localPort :: string
  cl_remoteAddr :: string
  cl_remotePort :: string
  cl_host :: string
  cl_basePath :: string
  cl_username :: string
  cl_password :: string
  cl_writeChan :: "string chan"
  cl_writing :: bool
  cl_open :: bool
  cl_wire :: "string list"
  cl_currentStream :: "nat option"
  cl_destroyed :: bool

definition addActiveClients :: "int \<Rightarrow> metrics \<Rightarrow> metrics" where
  "addActiveClients n mt = mt\<lparr>m_ActiveClients := wrap64 (m_ActiveClients mt + n)\<rparr>"

definition NewClient :: "string \<Rightarrow> string \<Rightarrow> metrics \<Rightarrow> (client \<times> metrics) option" where
  "NewClient local rem mt =
     (let localAddr = split (CHR '':'') local;
          remoteAddr = split (CHR '':'') rem
      in if length localAddr < 2 \<or> length remoteAddr < 2 then None
         else Some (\<lparr> cl_localAddr = localAddr ! 0, cl_localPort = localAddr ! 1,
                       cl_remoteAddr = remoteAddr ! 0, cl_remotePort = remoteAddr ! 1,
                       cl_host = [], cl_basePath = [], cl_username = [], cl_password = [],
                       cl_writeChan = make_chan 200, cl_writing = True, cl_open = True, cl_wire = [],
                       cl_currentStream = None, cl_destroyed = False \<rparr>, addActiveClients 1 mt))"

text \<open>
  One turn of the writer: the server's context is done, or there is a message to write, with the error
  of the write if there is one. After an error and after the end of the context it empties the
  channel until that is closed.
\<close>

definition writer :: "bool \<Rightarrow> string option \<Rightarrow> client \<Rightarrow> client" where
  "writer serverDone err c =
     (if cl_writing c \<and> serverDone then c\<lparr>cl_writing := False\<rparr>
      else (case tryRecv (cl_writeChan c) of
              None \<Rightarrow> if ch_closed (cl_writeChan c) then c\<lparr>cl_writing := False\<rparr> else c
            | Some (data, ch) \<Rightarrow>
                (if \<not> cl_writing c then c\<lparr>cl_writeChan := ch\<rparr>
                 else case err of
                   None \<Rightarrow> c\<lparr>cl_writeChan := ch, cl_wire := cl_wire c @ [data]\<rparr>
                 | Some _ \<Rightarrow> c\<lparr>cl_writeChan := ch, cl_writing := False\<rparr>)))"

text \<open>\<open>Destroy\<close>: once. It waits for the writer, which empties the channel.\<close>

definition Client_Destroy :: "client \<times> metrics \<Rightarrow> (client \<times> metrics) option" where
  "Client_Destroy w =
     (case w of (c, mt) \<Rightarrow>
        if cl_destroyed c then Some (c, mt)
        else (case closeChan (cl_writeChan c) of
                None \<Rightarrow> None
              | Some ch \<Rightarrow>
                  Some (c\<lparr>cl_destroyed := True, cl_open := False, cl_writeChan := ch\<lparr>ch_buf := []\<rparr>, cl_writing := False\<rparr>,
                        addActiveClients (- 1) mt)))"

text \<open>A direct write of a response; a closed connection refuses it, and the error is ignored.\<close>

definition writeConn :: "string \<Rightarrow> client \<Rightarrow> client" where
  "writeConn data c = (if cl_open c then c\<lparr>cl_wire := cl_wire c @ [data]\<rparr> else c)"

section \<open>What the client sends\<close>

abbreviation rtspBufferSize :: nat where "rtspBufferSize \<equiv> 65536"

datatype client_input = MoreBytes | Binary int string string | RequestText string

text \<open>
  The reader's view of its buffer after a read: nothing yet, an incomplete interleaved packet, a
  complete one with its channel, data and the bytes after it, or a request, which is the whole buffer.
\<close>

definition clientInput :: "string \<Rightarrow> client_input" where
  "clientInput buffer =
     (if buffer = [] then MoreBytes
      else if hd buffer = CHR ''$'' then
        (if length buffer < 4 then MoreBytes
         else let n = pktLen buffer
              in if length buffer - 4 < n then MoreBytes
                 else Binary (byte_val (buffer ! 1)) (take n (drop 4 buffer)) (drop (4 + n) buffer))
      else RequestText buffer)"

text \<open>A read appends what fits into the buffer.\<close>

definition clientRead :: "string \<Rightarrow> string \<Rightarrow> string" where
  "clientRead buffer recv = buffer @ take (rtspBufferSize - length buffer) recv"

text \<open>The channel of the camera for a channel of the client: the first entry of the map that has it.\<close>

definition upstreamChannel :: "nat \<Rightarrow> int \<Rightarrow> stream \<Rightarrow> int" where
  "upstreamChannel client tcpChannel s =
     (case mget (st_clients s) client of
        None \<Rightarrow> tcpChannel
      | Some cs \<Rightarrow>
          (case List.find (\<lambda>(u, c). c = tcpChannel) (cs_channels cs) of
             None \<Rightarrow> tcpChannel
           | Some (u, _) \<Rightarrow> u))"

definition forwardBinary :: "net_env \<Rightarrow> nat \<Rightarrow> int \<Rightarrow> string \<Rightarrow> stream \<Rightarrow> stream" where
  "forwardBinary e client tcpChannel data s =
     (case st_remote s of
        None \<Rightarrow> s
      | Some r \<Rightarrow> s\<lparr>st_remote := Some (snd (SendBinary e (upstreamChannel client tcpChannel s) data r))\<rparr>)"

section \<open>The target of a client\<close>

text \<open>
  The first request fixes the target. A direct \<open>OPTIONS\<close> probe is answered by the proxy itself, which
  then closes the connection.
\<close>

definition proxyMethods :: string where
  "proxyMethods = ''OPTIONS, DESCRIBE, SETUP, PLAY, TEARDOWN, GET_PARAMETER''"

datatype resolved = Probe response | Resolved client request

definition respHeader :: "string \<Rightarrow> string \<Rightarrow> response \<Rightarrow> response" where
  "respHeader k v response = response\<lparr>rs_Headers := mput k v (rs_Headers response)\<rparr>"

definition probeResponse :: "request \<Rightarrow> response" where
  "probeResponse request =
     respHeader ''CSeq'' (headerGet (rq_Headers request) ''CSeq'')
       (respHeader ''Server'' ''RTSP-Proxy/1.0'' (respHeader ''Public'' proxyMethods (NewResponse 200 [''OK''])))"

definition splitCredentials :: "client \<Rightarrow> client" where
  "splitCredentials c =
     (if CHR ''@'' \<in> set (cl_host c) then
        (let authAndHost = splitN 2 (CHR ''@'') (cl_host c);
             c = c\<lparr>cl_host := authAndHost ! 1\<rparr>;
             authParts = splitN 2 (CHR '':'') (authAndHost ! 0)
         in if length authParts = 2 then c\<lparr>cl_username := authParts ! 0, cl_password := authParts ! 1\<rparr> else c)
      else c)"

definition urlUser :: "url \<Rightarrow> string \<times> string" where
  "urlUser u =
     (case User u of
        None \<Rightarrow> ([], [])
      | Some ui \<Rightarrow> (ui_username ui, case ui_password ui of None \<Rightarrow> [] | Some p \<Rightarrow> p))"

definition resolveTarget :: "request \<Rightarrow> client \<Rightarrow> resolved option" where
  "resolveTarget request c =
     (if cl_host c \<noteq> [] then Some (Resolved c request)
      else (case rq_URL request of
        None \<Rightarrow> None
      | Some u \<Rightarrow>
          (let c = c\<lparr>cl_username := fst (urlUser u), cl_password := snd (urlUser u)\<rparr>;
               parts = splitN 3 (CHR ''/'') (trim_prefix (Path u) ''/'')
           in if 2 \<le> length parts \<and> parts ! 0 = ''rtsp'' then
                (let path = (if length parts = 3 then ''/'' @ parts ! 2 else ''/'')
                 in Some (Resolved ((splitCredentials (c\<lparr>cl_host := parts ! 1\<rparr>))\<lparr>cl_basePath := path\<rparr>)
                      (request\<lparr>rq_URL := Some (u\<lparr>Path := path\<rparr>)\<rparr>)))
              else if rq_Method request = ''OPTIONS'' \<and> (Path u = ''*'' \<or> Path u = ''/'' \<or> Path u = []) then
                Some (Probe (probeResponse request))
              else Some (Resolved ((splitCredentials (c\<lparr>cl_host := Host u\<rparr>))\<lparr>cl_basePath := Path u\<rparr>) request))))"

section \<open>The handlers\<close>

definition responseUnsupportedTransport :: response where
  "responseUnsupportedTransport =
     respHeader ''Supported'' ''RTP/AVP/TCP''
       (respHeader ''Transport'' ''RTP/AVP/TCP;unicast;interleaved=0-1'' (NewResponse 461 [''Unsupported Transport'']))"

definition responseNotFound :: response where
  "responseNotFound = NewResponse 404 [''Stream Not Found'']"

definition responseBadRequest :: response where
  "responseBadRequest = NewResponse 400 [''Bad Request'']"

definition responseUnauthorized :: response where
  "responseUnauthorized = NewResponse 401 [''Unauthorized'']"

text \<open>
  How a wait ends: the server's context, the signal, the timer. A signal that is not there ends with
  the timer.
\<close>

datatype wait = WaitDone | WaitSignal | WaitTimer

record handler_env =
  he_now :: int
  he_wait :: wait
  he_others :: "stream \<Rightarrow> stream"

definition awaitSignal :: "wait \<Rightarrow> nat \<Rightarrow> stream \<Rightarrow> wait" where
  "awaitSignal w ch s = (if w = WaitSignal \<and> \<not> isClosed ch s then WaitTimer else w)"

definition Client_handleGetParameter :: "stream \<Rightarrow> request \<Rightarrow> response" where
  "Client_handleGetParameter s request =
     respHeader ''Server'' (st_Server s)
       (respHeader ''Session'' (headerGet (rq_Headers request) ''Session'') (NewResponse 200 [''OK'']))"

definition Client_handleOptions :: "handler_env \<Rightarrow> stream \<Rightarrow> request \<Rightarrow> response \<times> stream" where
  "Client_handleOptions e s request =
     (let s = (if GetOptions s = [] then he_others e (Stream_Start (he_now e) s) else s);
          opts = GetOptions s
      in (respHeader ''Server'' (st_Server s)
            (respHeader ''Public'' (if opts \<noteq> [] then opts else proxyMethods) (NewResponse 200 [''OK''])), s))"

text \<open>\<open>proxyIP\<close> of the handlers.\<close>

definition proxyIP :: "client \<Rightarrow> string" where
  "proxyIP c = (if cl_localAddr c = ''0.0.0.0'' then ''127.0.0.1'' else cl_localAddr c)"

text \<open>
  \<open>cleanTransport\<close>: the matches of \<open>;?(destination|source)=[^;]+\<close> are removed, from the left and
  without overlap.
\<close>

definition keyMatch :: "string \<Rightarrow> string \<Rightarrow> nat option" where
  "keyMatch key s =
     (if prefix key s \<and> takeWhile (\<lambda>c. c \<noteq> CHR '';'') (drop (length key) s) \<noteq> [] then
        Some (length key + length (takeWhile (\<lambda>c. c \<noteq> CHR '';'') (drop (length key) s)))
      else None)"

definition addressMatch :: "string \<Rightarrow> nat option" where
  "addressMatch s =
     (case keyMatch ''destination='' s of Some n \<Rightarrow> Some n | None \<Rightarrow> keyMatch ''source='' s)"

definition transportMatch :: "string \<Rightarrow> nat option" where
  "transportMatch s =
     (if s \<noteq> [] \<and> hd s = CHR '';'' then map_option Suc (addressMatch (tl s)) else addressMatch s)"

fun cleanFuel :: "nat \<Rightarrow> string \<Rightarrow> string" where
  "cleanFuel 0 s = s"
| "cleanFuel (Suc k) s =
     (case transportMatch s of
        Some n \<Rightarrow> cleanFuel k (drop n s)
      | None \<Rightarrow> (case s of [] \<Rightarrow> [] | c # t \<Rightarrow> c # cleanFuel k t))"

definition cleanTransport :: "string \<Rightarrow> string" where
  "cleanTransport s = cleanFuel (length s) s"

text \<open>
  The channels of a SETUP: \<open>Substreams[0]\<close> and \<open>Substreams[1]\<close> of the camera's transport are
  dereferenced, which panics when the camera's answer named no channels.
\<close>

definition mapChannels :: "nat \<Rightarrow> string \<Rightarrow> transport \<Rightarrow> stream \<Rightarrow> stream option" where
  "mapChannels client interleaved t s =
     (if interleaved = [] then Some s
      else (let channels = split (CHR ''-'') interleaved
            in case mget (tr_Substreams t) 0 of
                 None \<Rightarrow> None
               | Some sub1 \<Rightarrow>
                   (let s = MapChannel client (su_Channel sub1) (fst (atoi (channels ! 0))) s
                    in if length channels \<le> 1 then Some s
                       else (case mget (tr_Substreams t) 1 of
                               None \<Rightarrow> None
                             | Some sub2 \<Rightarrow> Some (MapChannel client (su_Channel sub2) (fst (atoi (channels ! 1))) s)))))"

definition setupResponse :: "client \<Rightarrow> string \<Rightarrow> string \<Rightarrow> transport \<Rightarrow> stream \<Rightarrow> response" where
  "setupResponse c transport sessionID t s =
     respHeader ''Server'' (st_Server s) (respHeader ''Session'' (sessionID @ '';timeout=60'')
       (respHeader ''Cache-Control'' ''must-revalidate''
         (respHeader ''Transport'' (cleanTransport transport @ '';ssrc='' @ tr_Ssrc t @ '';destination='' @ cl_remoteAddr c @
            '';source='' @ proxyIP c) (NewResponse 200 [''OK'']))))"

definition Client_handleSetup :: "config \<Rightarrow> handler_env \<Rightarrow> nat \<Rightarrow> client \<Rightarrow> stream \<Rightarrow> request \<Rightarrow> (response \<times> stream) option" where
  "Client_handleSetup cfg e client c s request =
     (case GetURL request of
        None \<Rightarrow> None
      | Some u \<Rightarrow>
          (let substreamName = split_file (Path u);
               transport = headerGet (rq_Headers request) ''Transport'';
               (protocol, comType, params) = parseTransport transport;
               s = Stream_Start (he_now e) s;
               ch = ReadyCh s;
               s = he_others e s
           in case awaitSignal (he_wait e) ch s of
                WaitDone \<Rightarrow> Some (responseBadRequest, s)
              | w \<Rightarrow>
                  (if w = WaitSignal \<and> GetState s = StateDestroyed then Some (responseNotFound, s)
                   else if w = WaitTimer \<and> GetState s \<noteq> StatePlaying then Some (responseBadRequest, s)
                   else (case Stream_LookupTransport (substreamName, protocol, comType) s of
                           None \<Rightarrow> Some (responseBadRequest, s)
                         | Some (sessionID, t) \<Rightarrow>
                             (case AddClient cfg client sessionID s of
                                None \<Rightarrow> None
                              | Some (_, s) \<Rightarrow>
                                  map_option (\<lambda>s. (setupResponse c transport sessionID t s, s))
                                    (mapChannels client (mget_str params ''interleaved'') t s))))))"

definition describeResponse :: "client \<Rightarrow> stream \<Rightarrow> response" where
  "describeResponse c s =
     (let rewrittenSDP = replaceAll (GetSDP s) ''0.0.0.0'' (proxyIP c)
      in (respHeader ''Content-Length'' (itoa (int (length rewrittenSDP)))
           (respHeader ''Server'' (st_Server s) (respHeader ''Content-Type'' ''application/sdp'' (NewResponse 200 [''OK'']))))
         \<lparr>rs_Body := rewrittenSDP\<rparr>)"

definition Client_handleDescribe :: "handler_env \<Rightarrow> client \<Rightarrow> stream \<Rightarrow> response \<times> stream" where
  "Client_handleDescribe e c s =
     (let s = Stream_Start (he_now e) s; ch = SDPReadyCh s; s = he_others e s
      in case awaitSignal (he_wait e) ch s of
           WaitDone \<Rightarrow> (responseBadRequest, s)
         | WaitSignal \<Rightarrow> (if GetState s = StateDestroyed then responseNotFound else describeResponse c s, s)
         | WaitTimer \<Rightarrow> (if GetSDP s = [] then responseBadRequest else describeResponse c s, s))"

definition Client_handlePlay :: "client \<Rightarrow> stream \<Rightarrow> request \<Rightarrow> response" where
  "Client_handlePlay c s request =
     respHeader ''RTP-Info'' (join '','' [''url=rtsp://'' @ proxyIP c @ st_Path s @ '';seq=0;rtptime=0''])
       (respHeader ''Server'' (st_Server s) (respHeader ''Session'' (headerGet (rq_Headers request) ''Session'')
         (respHeader ''Range'' (headerGet (rq_Headers request) ''Range'') (NewResponse 200 [''OK'']))))"

definition Client_handleTeardown :: "int \<Rightarrow> nat \<Rightarrow> stream \<Rightarrow> request \<Rightarrow> (response \<times> stream) option" where
  "Client_handleTeardown now client s request =
     map_option (\<lambda>s. (respHeader ''Server'' (st_Server s)
         (respHeader ''Session'' (headerGet (rq_Headers request) ''Session'') (NewResponse 200 [''OK''])), s))
       (RemoveClient now client s)"

section \<open>The request handler\<close>

definition handleMethod :: "config \<Rightarrow> handler_env \<Rightarrow> nat \<Rightarrow> client \<Rightarrow> stream \<Rightarrow> request \<Rightarrow> (response \<times> stream) option" where
  "handleMethod cfg e client c s request =
     (if rq_Method request = ''OPTIONS'' then Some (Client_handleOptions e s request)
      else if rq_Method request = ''DESCRIBE'' then Some (Client_handleDescribe e c s)
      else if rq_Method request = ''SETUP'' then
        (let transport = headerGet (rq_Headers request) ''Transport''
         in if transport \<noteq> [] \<and> contains transport ''RTP/AVP'' \<and> \<not> contains transport ''RTP/AVP/TCP''
            then Some (responseUnsupportedTransport, s)
            else Client_handleSetup cfg e client c s request)
      else if rq_Method request = ''PLAY'' then Some (Client_handlePlay c s request, s)
      else if rq_Method request = ''TEARDOWN'' then Client_handleTeardown (he_now e) client s request
      else if rq_Method request = ''GET_PARAMETER'' then Some (Client_handleGetParameter s request, s)
      else Some (responseBadRequest, s))"

text \<open>The headers that every response gets.\<close>

definition finishResponse :: "request \<Rightarrow> response \<Rightarrow> response" where
  "finishResponse request response =
     (let response = respHeader ''Via'' ''RTSP-Proxy'' response;
          cseq = headerGet (rq_Headers request) ''CSeq'';
          response = (if cseq \<noteq> [] then respHeader ''CSeq'' cseq response else response)
      in if mget_str (rs_Headers response) ''Server'' = [] then respHeader ''Server'' ''RTSP-Proxy/1.0'' response
         else response)"

text \<open>A client with its number, and the manager of the streams. \<open>Closing\<close>: the handler returns.\<close>

type_synonym conn = "client \<times> manager"

datatype served = Serving conn | Closing conn

definition serveRequest :: "config \<Rightarrow> handler_env \<Rightarrow> nat \<Rightarrow> string \<Rightarrow> conn \<Rightarrow> served option" where
  "serveRequest cfg e client reqStr w =
     (case w of (c, m) \<Rightarrow>
       (case NewRequestFromBuffer reqStr of
          Inl err \<Rightarrow> Some (Closing (c, m))
        | Inr request \<Rightarrow>
            (case resolveTarget request c of
               None \<Rightarrow> None
             | Some (Probe response) \<Rightarrow>
                 Some (Closing (writeConn (responseString response (rs_Headers response)) c, m))
             | Some (Resolved c request) \<Rightarrow>
                 (case GetStream cfg (he_now e) (cl_host c, cl_username c, cl_password c, cl_basePath c) m of
                    (n, m) \<Rightarrow>
                      (case getStream n m of
                         None \<Rightarrow> None
                       | Some s \<Rightarrow>
                           (case handleMethod cfg e client (c\<lparr>cl_currentStream := Some n\<rparr>) s request of
                              None \<Rightarrow> None
                            | Some (response, s) \<Rightarrow>
                                (let response = finishResponse request response
                                 in Some (Serving
                                      (writeConn (responseString response (rs_Headers response)) (c\<lparr>cl_currentStream := Some n\<rparr>),
                                       setStream n s m)))))))))"

definition serveBinary :: "net_env \<Rightarrow> nat \<Rightarrow> int \<Rightarrow> string \<Rightarrow> conn \<Rightarrow> conn" where
  "serveBinary e client channel data w =
     (case w of (c, m) \<Rightarrow>
       (case cl_currentStream c of
          None \<Rightarrow> (c, m)
        | Some n \<Rightarrow>
            (case getStream n m of
               None \<Rightarrow> (c, m)
             | Some s \<Rightarrow> (c, setStream n (forwardBinary e client channel data s) m))))"

text \<open>
  The loop: each read delivers some bytes (none after a timeout) or fails, and the server's context may
  be done before it; without a further read the loop waits. When it ends the client leaves its stream and is destroyed.
\<close>

datatype client_read = ClientBytes string handler_env net_env | ClientFails | ClientServerDone

definition leaveClient :: "int \<Rightarrow> nat \<Rightarrow> conn \<Rightarrow> conn option" where
  "leaveClient now client w =
     (case w of (c, m) \<Rightarrow>
       (case (case cl_currentStream c of
                None \<Rightarrow> Some m
              | Some n \<Rightarrow>
                  (case getStream n m of
                     None \<Rightarrow> Some m
                   | Some s \<Rightarrow> map_option (\<lambda>s. setStream n s m) (RemoveClient now client s))) of
          None \<Rightarrow> None
        | Some m \<Rightarrow> map_option (\<lambda>(c, mt). (c, m\<lparr>sm_metrics := mt\<rparr>)) (Client_Destroy (c, sm_metrics m))))"

fun incomingRequestHandler :: "config \<Rightarrow> int \<Rightarrow> nat \<Rightarrow> client_read list \<Rightarrow> string \<Rightarrow> conn \<Rightarrow> conn option" where
  "incomingRequestHandler cfg now client [] buffer w = Some w"
| "incomingRequestHandler cfg now client (ClientServerDone # rs) buffer w = leaveClient now client w"
| "incomingRequestHandler cfg now client (ClientFails # rs) buffer w = leaveClient now client w"
| "incomingRequestHandler cfg now client (ClientBytes recv e net # rs) buffer w =
     (let buffer = clientRead buffer recv
      in case (if recv = [] then MoreBytes else clientInput buffer) of
           MoreBytes \<Rightarrow> incomingRequestHandler cfg now client rs buffer w
         | Binary channel data rest \<Rightarrow>
             incomingRequestHandler cfg now client rs rest (serveBinary net client channel data w)
         | RequestText reqStr \<Rightarrow>
             (case serveRequest cfg e client reqStr w of
                None \<Rightarrow> None
              | Some (Closing w) \<Rightarrow> leaveClient now client w
              | Some (Serving w) \<Rightarrow> incomingRequestHandler cfg now client rs [] w))"

end
