(* ===== verification/Client_Props.thy ===== *)
theory Client_Props
  imports Rtsp_Client Upstream_Props
begin

text \<open>
  What a client can rely on: its requests are answered with its own sequence numbers, it gets the
  stream it asked for, the channels of its SETUP are the channels of the packets it receives, and
  its own packets go to the right channel of the camera. The lemmas show that the handlers only take
  steps of the stream.
\<close>

section \<open>The handlers take steps of the stream\<close>

abbreviation (input) others_step :: "config \<Rightarrow> handler_env \<Rightarrow> bool" where
  "others_step cfg e \<equiv> \<forall>s. (stream_step cfg)\<^sup>*\<^sup>* s (he_others e s)"

lemma start_steps: "(stream_step cfg)\<^sup>*\<^sup>* s (Stream_Start now s)"
  by (intro r_into_rtranclp stream_step.step_start)

lemma started_others:
  "others_step cfg e \<Longrightarrow> (stream_step cfg)\<^sup>*\<^sup>* s (he_others e (Stream_Start now s))"
  using start_steps by (rule rtranclp_trans) blast

lemma mapChannels_steps:
  assumes "mapChannels client il t s = Some s'"
  shows "(stream_step cfg)\<^sup>*\<^sup>* s s'"
proof -
  have 1: "(stream_step cfg)\<^sup>*\<^sup>* s (MapChannel client u d s)" for u d s
    by (intro r_into_rtranclp stream_step.step_map)
  have 2: "(stream_step cfg)\<^sup>*\<^sup>* s (MapChannel client u' d' (MapChannel client u d s))" for u d u' d'
    using 1 1 by (rule rtranclp_trans)
  show ?thesis using assms by (auto simp: mapChannels_def Let_def 1 2 split: if_splits option.splits)
qed

text \<open>The part of \<open>handleSetup\<close> after the wait.\<close>

lemma Client_handleSetup_cases:
  assumes "Client_handleSetup cfg e client c s request = Some (r, s')"
    and "s0 = he_others e (Stream_Start (he_now e) s)"
  obtains (refused) "s' = s0" "rs_Code r \<noteq> 200"
  | (granted) u protocol comType params sid t cs s1 where "GetURL request = Some u"
      "parseTransport (headerGet (rq_Headers request) ''Transport'') = (protocol, comType, params)"
      "Stream_LookupTransport (split_file (Path u), protocol, comType) s0 = Some (sid, t)"
      "AddClient cfg client sid s0 = Some (cs, s1)" "mapChannels client (mget_str params ''interleaved'') t s1 = Some s'"
      "r = setupResponse c (headerGet (rq_Headers request) ''Transport'') sid t s'"
proof -
  have codes: "rs_Code responseBadRequest \<noteq> 200" "rs_Code responseNotFound \<noteq> 200"
    by (simp_all add: responseBadRequest_def responseNotFound_def NewResponse_def)
  obtain u where u: "GetURL request = Some u" using assms(1) by (auto simp: Client_handleSetup_def split: option.splits)
  obtain protocol comType params where pt: "parseTransport (headerGet (rq_Headers request) ''Transport'') = (protocol, comType, params)"
    by (metis prod_cases3)
  note red = assms(1) [unfolded Client_handleSetup_def Let_def u pt option.case prod.case, folded assms(2)]
  show ?thesis
    using red codes refused granted [OF u pt]
    by (auto split: wait.splits if_splits option.splits prod.splits)
qed

lemma handleSetup_steps:
  assumes "others_step cfg e" "Client_handleSetup cfg e client c s request = Some (r, s')"
  shows "(stream_step cfg)\<^sup>*\<^sup>* s s'"
  using assms(2) refl
proof (cases rule: Client_handleSetup_cases)
  case refused
  then show ?thesis using started_others [OF assms(1)] by simp
next
  case (granted u protocol comType params sid t cs s1)
  have "(stream_step cfg)\<^sup>*\<^sup>* s s1"
    using started_others [OF assms(1)] stream_step.step_add [OF granted(4)] by (rule rtranclp.rtrancl_into_rtrancl)
  then show ?thesis using mapChannels_steps [OF granted(5)] by (rule rtranclp_trans)
qed

lemma handleMethod_steps:
  assumes "others_step cfg e" "handleMethod cfg e client c s request = Some (r, s')"
  shows "(stream_step cfg)\<^sup>*\<^sup>* s s'"
proof -
  have "s' = s \<or> s' = he_others e (Stream_Start (he_now e) s) \<or> RemoveClient (he_now e) client s = Some s' \<or>
      Client_handleSetup cfg e client c s request = Some (r, s')"
    using assms(2)
    by (auto simp: handleMethod_def Client_handleOptions_def Client_handleDescribe_def Client_handleTeardown_def Let_def
        split: if_splits wait.splits)
  then show ?thesis
    using started_others [OF assms(1)] handleSetup_steps [OF assms(1)] stream_step.step_remove by blast
qed

lemma steps_ident: "(stream_step cfg)\<^sup>*\<^sup>* s t \<Longrightarrow> ident t = ident s"
  by (induction rule: rtranclp_induct) (auto dest: stream_step_ident)

section \<open>A client takes steps of the manager\<close>

lemma mput_same: "mget m k = Some v \<Longrightarrow> mput k v m = m"
  by (induction m) (auto split: if_splits)

lemma setStream_steps:
  assumes "(stream_step cfg)\<^sup>*\<^sup>* s s'" "getStream n m = Some s"
  shows "(manager_step cfg)\<^sup>*\<^sup>* m (setStream n s' m)"
  using assms(1)
proof (induction rule: rtranclp_induct)
  case base
  have "setStream n s m = m" using assms(2) by (auto simp: setStream_def getStream_def mput_same)
  then show ?case by simp
next
  case (step t u)
  obtain key where key: "mget (sm_store m) n = Some (key, s)" using assms(2) by (auto simp: getStream_def)
  then have "mget (sm_store (setStream n t m)) n = Some (key, t)" by (simp add: setStream_store)
  from manager_stream [OF this step(2)] have "manager_step cfg (setStream n t m) (setStream n u (setStream n t m))" .
  moreover have "setStream n u (setStream n t m) = setStream n u m" using key by (simp add: setStream_def)
  ultimately show ?case using step(3) by (simp add: rtranclp.rtrancl_into_rtrancl)
qed

lemma getStream_steps:
  assumes "GetStream cfg now target m = (n, m')"
  shows "(manager_step cfg)\<^sup>*\<^sup>* m m'"
  using manager_get [of cfg m now target] assms by auto

lemma serveRequest_serving:
  assumes "serveRequest cfg e client reqStr (c, m) = Some (Serving (c', m'))"
  obtains request c1 request1 n m1 s r s1 where "NewRequestFromBuffer reqStr = Inr request"
    "resolveTarget request c = Some (Resolved c1 request1)"
    "GetStream cfg (he_now e) (cl_host c1, cl_username c1, cl_password c1, cl_basePath c1) m = (n, m1)"
    "getStream n m1 = Some s" "handleMethod cfg e client (c1\<lparr>cl_currentStream := Some n\<rparr>) s request1 = Some (r, s1)"
    "c' = writeConn (responseString (finishResponse request1 r) (rs_Headers (finishResponse request1 r))) (c1\<lparr>cl_currentStream := Some n\<rparr>)"
    "m' = setStream n s1 m1"
  using assms that
  by (auto simp: serveRequest_def Let_def split: sum.splits option.splits resolved.splits prod.splits)

lemma serveRequest_steps:
  assumes "others_step cfg e" "serveRequest cfg e client reqStr (c, m) = Some x"
  shows "(manager_step cfg)\<^sup>*\<^sup>* m (case x of Serving (c', m') \<Rightarrow> m' | Closing (c', m') \<Rightarrow> m')"
proof (cases x)
  case (Serving w)
  obtain c' m' where w: "w = (c', m')" by (cases w)
  from assms(2) have "serveRequest cfg e client reqStr (c, m) = Some (Serving (c', m'))" by (simp add: Serving w)
  then obtain request c1 request1 n m1 s r s1 where "NewRequestFromBuffer reqStr = Inr request"
      "resolveTarget request c = Some (Resolved c1 request1)"
    and g: "GetStream cfg (he_now e) (cl_host c1, cl_username c1, cl_password c1, cl_basePath c1) m = (n, m1)" "getStream n m1 = Some s"
      "handleMethod cfg e client (c1\<lparr>cl_currentStream := Some n\<rparr>) s request1 = Some (r, s1)"
      "c' = writeConn (responseString (finishResponse request1 r) (rs_Headers (finishResponse request1 r))) (c1\<lparr>cl_currentStream := Some n\<rparr>)"
      "m' = setStream n s1 m1"
    by (rule serveRequest_serving)
  have "(manager_step cfg)\<^sup>*\<^sup>* m1 m'" unfolding g(5) by (rule setStream_steps [OF handleMethod_steps [OF assms(1) g(3)] g(2)])
  with getStream_steps [OF g(1)] show ?thesis by (simp add: Serving w)
next
  case (Closing w)
  with assms(2) have "snd w = m"
    by (auto simp: serveRequest_def Let_def split: sum.splits option.splits resolved.splits prod.splits)
  then show ?thesis by (cases w) (simp add: Closing)
qed

lemma serveBinary_steps: "(manager_step cfg)\<^sup>*\<^sup>* m (snd (serveBinary net client channel data (c, m)))"
proof -
  have "(stream_step cfg)\<^sup>*\<^sup>* s (forwardBinary net client channel data s)" for s
    by (auto simp: forwardBinary_def intro: r_into_rtranclp stream_step.step_remote split: option.split)
  then show ?thesis by (auto simp: serveBinary_def intro: setStream_steps split: option.split)
qed

lemma leaveClient_steps:
  assumes "leaveClient now client (c, m) = Some (c', m')"
  shows "(manager_step cfg)\<^sup>*\<^sup>* m m'"
proof -
  let ?x = "case cl_currentStream c of None \<Rightarrow> Some m
    | Some n \<Rightarrow> (case getStream n m of None \<Rightarrow> Some m | Some s \<Rightarrow> map_option (\<lambda>s. setStream n s m) (RemoveClient now client s))"
  obtain m1 where x: "?x = Some m1" using assms by (cases ?x) (simp_all add: leaveClient_def)
  then obtain mt where m1: "m' = m1\<lparr>sm_metrics := mt\<rparr>" "Client_Destroy (c, sm_metrics m1) = Some (c', mt)"
    using assms by (auto simp: leaveClient_def)
  have m: "m1 = m \<or> (\<exists>n s s'. getStream n m = Some s \<and> RemoveClient now client s = Some s' \<and> m1 = setStream n s' m)"
    using x by (auto split: option.splits)
  have "m_ActiveStreams mt = m_ActiveStreams (sm_metrics m1)"
    using m1(2) by (auto simp: Client_Destroy_def addActiveClients_def split: if_splits option.splits)
  then have "manager_step cfg m1 m'" unfolding m1(1) by (rule manager_metrics)
  moreover have "(stream_step cfg)\<^sup>*\<^sup>* s s'" if "RemoveClient now client s = Some s'" for s s'
    using that by (intro r_into_rtranclp stream_step.step_remove)
  then have "(manager_step cfg)\<^sup>*\<^sup>* m m1" using m setStream_steps by blast
  ultimately show ?thesis by (rule rtranclp.rtrancl_into_rtrancl [rotated])
qed

fun read_ok :: "config \<Rightarrow> client_read \<Rightarrow> bool" where
  "read_ok cfg (ClientBytes recv e net) = others_step cfg e"
| "read_ok cfg _ = True"

lemma handler_steps:
  assumes "\<forall>r. r \<in> set rs \<longrightarrow> read_ok cfg r" "incomingRequestHandler cfg now client rs buffer (c, m) = Some (c', m')"
  shows "(manager_step cfg)\<^sup>*\<^sup>* m m'"
  using assms
proof (induction rs arbitrary: buffer c m)
  case (Cons r rs)
  show ?case
  proof (cases r)
    case (ClientBytes recv e net)
    let ?b = "clientRead buffer recv"
    have ok: "others_step cfg e" "\<forall>r. r \<in> set rs \<longrightarrow> read_ok cfg r" using Cons.prems(1) ClientBytes by auto
    show ?thesis
    proof (cases "if recv = [] then MoreBytes else clientInput ?b")
      case MoreBytes
      then have "incomingRequestHandler cfg now client rs ?b (c, m) = Some (c', m')"
        using Cons.prems(2) by (simp add: ClientBytes Let_def)
      then show ?thesis by (rule Cons.IH [OF ok(2)])
    next
      case (Binary channel data rest)
      obtain c1 m1 where w: "serveBinary net client channel data (c, m) = (c1, m1)" by (meson surj_pair)
      with Binary Cons.prems(2) have "incomingRequestHandler cfg now client rs rest (c1, m1) = Some (c', m')"
        by (simp add: ClientBytes Let_def)
      then have "(manager_step cfg)\<^sup>*\<^sup>* m1 m'" by (rule Cons.IH [OF ok(2)])
      with serveBinary_steps [of cfg m net client channel data c] w show ?thesis by simp
    next
      case (RequestText reqStr)
      then obtain x where x: "serveRequest cfg e client reqStr (c, m) = Some x"
          "(case x of Serving w \<Rightarrow> incomingRequestHandler cfg now client rs [] w | Closing w \<Rightarrow> leaveClient now client w) = Some (c', m')"
        using Cons.prems(2) by (auto simp: ClientBytes Let_def split: option.splits served.splits)
      have "(manager_step cfg)\<^sup>*\<^sup>* (case x of Serving (c', m') \<Rightarrow> m' | Closing (c', m') \<Rightarrow> m') m'"
        using x(2) Cons.IH [OF ok(2)] leaveClient_steps by (auto split: served.splits)
      with serveRequest_steps [OF ok(1) x(1)] show ?thesis by (rule rtranclp_trans)
    qed
  qed (use Cons.prems(2) leaveClient_steps in auto)
qed simp

section \<open>Answers\<close>

lemma respHeader_get [simp]: "mget (rs_Headers (respHeader k v r)) k' = (if k' = k then Some v else mget (rs_Headers r) k')"
  by (simp add: respHeader_def)

lemma finishResponse_headers:
  "mget (rs_Headers (finishResponse request r)) ''Via'' = Some ''RTSP-Proxy''"
  "headerGet (rq_Headers request) ''CSeq'' \<noteq> [] \<Longrightarrow>
     mget (rs_Headers (finishResponse request r)) ''CSeq'' = Some (headerGet (rq_Headers request) ''CSeq'')"
  "\<exists>v. mget (rs_Headers (finishResponse request r)) ''Server'' = Some v \<and> v \<noteq> []"
  by (auto simp: finishResponse_def Let_def mget_str_def split: option.splits)

lemma splitCredentials_keeps [simp]:
  "cl_wire (splitCredentials c) = cl_wire c" "cl_open (splitCredentials c) = cl_open c"
  by (simp_all add: splitCredentials_def Let_def)

lemma resolveTarget_keeps:
  "resolveTarget request c = Some (Resolved c' request') \<Longrightarrow>
     rq_Headers request' = rq_Headers request \<and> rq_Method request' = rq_Method request \<and>
     cl_wire c' = cl_wire c \<and> cl_open c' = cl_open c"
  by (auto simp: resolveTarget_def Let_def split: if_splits option.splits)

section \<open>Properties\<close>

text \<open>
  C6. Whatever bytes a client sends, in whatever pieces, and whatever the other goroutines do to the
  streams meanwhile, its handler takes the manager and the streams only through steps of the
  manager's system: the invariants of the registry and of every stream hold after it.
\<close>

theorem client_handler_refines:
  assumes "\<forall>r \<in> set reads. read_ok cfg r" "reach (\<lambda>m. m = NewStreamManager) (manager_step cfg) m"
    and "incomingRequestHandler cfg now client reads buffer (c, m) = Some (c', m')"
  shows "reach (\<lambda>m. m = NewStreamManager) (manager_step cfg) m' \<and> manager_inv m'"
proof -
  have "reach (\<lambda>m. m = NewStreamManager) (manager_step cfg) m'"
    using handler_steps [OF _ assms(3)] assms(1) by (intro reach_steps [OF _ assms(2)]) blast
  then show ?thesis using managers.reach_inv by blast
qed

text \<open>
  C18. Every request that does not end the connection is answered by exactly one message, and the answer
  carries the sequence number of the request, the \<open>Via\<close> header of the proxy and a \<open>Server\<close> header
  that is not empty.
\<close>

theorem every_request_answered:
  assumes "serveRequest cfg e client reqStr (c, m) = Some (Serving (c', m'))" "cl_open c"
  shows "\<exists>request r. NewRequestFromBuffer reqStr = Inr request \<and>
    cl_wire c' = cl_wire c @ [responseString r (rs_Headers r)] \<and>
    mget (rs_Headers r) ''Via'' = Some ''RTSP-Proxy'' \<and>
    (headerGet (rq_Headers request) ''CSeq'' \<noteq> [] \<longrightarrow>
       mget (rs_Headers r) ''CSeq'' = Some (headerGet (rq_Headers request) ''CSeq'')) \<and>
    (\<exists>v. mget (rs_Headers r) ''Server'' = Some v \<and> v \<noteq> [])"
proof -
  from serveRequest_serving [OF assms(1)] obtain request c1 request1 n m1 s r s1
    where q: "NewRequestFromBuffer reqStr = Inr request" and rt: "resolveTarget request c = Some (Resolved c1 request1)"
      and c': "c' = writeConn (responseString (finishResponse request1 r) (rs_Headers (finishResponse request1 r)))
        (c1\<lparr>cl_currentStream := Some n\<rparr>)"
    by metis
  note k = resolveTarget_keeps [OF rt]
  have "cl_wire c' = cl_wire c @ [responseString (finishResponse request1 r) (rs_Headers (finishResponse request1 r))]"
    using k assms(2) by (simp add: c' writeConn_def)
  with q k finishResponse_headers [of request1 r] show ?thesis by metis
qed

definition sample_client :: client where
  "sample_client = fst (the (NewClient ''10.0.0.1:554'' ''10.0.0.9:40000'' metrics_zero))"

definition quiet_env :: handler_env where
  "quiet_env = \<lparr> he_now = 0, he_wait = WaitTimer, he_others = (\<lambda>s. s) \<rparr>"

definition sample_request :: "string \<Rightarrow> string" where
  "sample_request method =
     requestText method ''rtsp://10.0.0.1:554/rtsp/admin:pw@cam/ch1'' ''RTSP/1.0'' [(''Cseq'', ''7'')]"

definition served_conn :: "served option \<Rightarrow> conn option" where
  "served_conn x = (case x of Some (Serving w) \<Rightarrow> Some w | _ \<Rightarrow> None)"

lemma served_conn_Some: "served_conn x = Some w \<longleftrightarrow> x = Some (Serving w)"
  by (auto simp: served_conn_def split: option.splits served.splits)

lemma sample_served:
  "\<exists>w. serveRequest DefaultConfig quiet_env 0 (sample_request ''GET_PARAMETER'') (sample_client, NewStreamManager) = Some (Serving w)"
proof -
  have "\<not> Option.is_none (served_conn (serveRequest DefaultConfig quiet_env 0 (sample_request ''GET_PARAMETER'') (sample_client, NewStreamManager)))"
    by code_simp
  then show ?thesis using served_conn_Some by (auto simp: Option.is_none_def)
qed

lemma sample_open: "cl_open sample_client" "cl_host sample_client = []"
  by code_simp+

lemma sample_text: "clientInput (clientRead [] (sample_request ''GET_PARAMETER'')) = RequestText (sample_request ''GET_PARAMETER'')"
    "sample_request ''GET_PARAMETER'' \<noteq> []"
  by (simp_all add: clientRead_def clientInput_def sample_request_def requestText_def headerLine_def)

theorem client_handler_refines_witness:
  "\<exists>c' m'. incomingRequestHandler DefaultConfig 3 0 [ClientBytes (sample_request ''GET_PARAMETER'') quiet_env net_ok] []
      (sample_client, NewStreamManager) = Some (c', m') \<and> manager_inv m'"
proof -
  obtain c' m' where "serveRequest DefaultConfig quiet_env 0 (sample_request ''GET_PARAMETER'') (sample_client, NewStreamManager) =
      Some (Serving (c', m'))" using sample_served by auto
  then have w: "incomingRequestHandler DefaultConfig 3 0 [ClientBytes (sample_request ''GET_PARAMETER'') quiet_env net_ok] []
      (sample_client, NewStreamManager) = Some (c', m')"
    using sample_text by (simp add: Let_def)
  have "\<forall>r \<in> set [ClientBytes (sample_request ''GET_PARAMETER'') quiet_env net_ok]. read_ok DefaultConfig r"
    by (simp add: quiet_env_def)
  from client_handler_refines [OF this manager_start w] w show ?thesis by blast
qed

theorem every_request_answered_witness:
  "\<exists>c' m' text. serveRequest DefaultConfig quiet_env 0 (sample_request ''GET_PARAMETER'') (sample_client, NewStreamManager) =
     Some (Serving (c', m')) \<and> cl_wire c' = cl_wire sample_client @ [text]"
proof -
  obtain c' m' where w: "serveRequest DefaultConfig quiet_env 0 (sample_request ''GET_PARAMETER'') (sample_client, NewStreamManager) =
      Some (Serving (c', m'))" using sample_served by auto
  from every_request_answered [OF w sample_open(1)] w show ?thesis by blast
qed

lemma not_nested:
  assumes "plain_path p" "\<not> prefix ''/rtsp/'' p"
  shows "\<not> (2 \<le> length (splitN 3 (CHR ''/'') (trim_prefix p ''/'')) \<and> splitN 3 (CHR ''/'') (trim_prefix p ''/'') ! 0 = ''rtsp'')"
proof (cases p)
  case (Cons c q)
  then have p: "p = CHR ''/'' # q" using assms(1) by (simp add: plain_path_def)
  have "takeWhile (\<lambda>x. x \<noteq> CHR ''/'') q \<noteq> ''rtsp''" if slash: "CHR ''/'' \<in> set q"
  proof
    assume tw: "takeWhile (\<lambda>x. x \<noteq> CHR ''/'') q = ''rtsp''"
    obtain ys zs where q: "q = ys @ CHR ''/'' # zs" "CHR ''/'' \<notin> set ys" using split_list_first [OF slash] by blast
    with tw have "q = ''rtsp'' @ CHR ''/'' # zs" by simp
    then have "prefix ''/rtsp/'' p" unfolding p by simp
    with assms(2) show False by contradiction
  qed
  then show ?thesis by (simp add: p trim_prefix_def numeral_3_eq_3)
qed (simp add: trim_prefix_def numeral_3_eq_3)

lemma resolveTarget_plain:
  assumes "plain_host h" "plain_path p" "\<not> prefix ''/rtsp/'' p" "cl_host c = []"
    and "rq_URL request = Some ((rtsp_url h p)\<lparr>User := Some \<lparr>ui_username = user, ui_password = Some pw\<rparr>\<rparr>)"
    and "rq_Method request \<noteq> ''OPTIONS'' \<or> p \<notin> {''/'', []}"
  shows "\<exists>c'. resolveTarget request c = Some (Resolved c' request) \<and>
    cl_host c' = h \<and> cl_username c' = user \<and> cl_password c' = pw \<and> cl_basePath c' = p"
proof -
  have "p \<noteq> ''*''" using assms(2) by (auto simp: plain_path_def)
  moreover have "CHR ''@'' \<notin> set h" by (rule plain_host_no_at [OF assms(1)])
  ultimately show ?thesis
    using assms(4-6) not_nested [OF assms(2,3)]
    by (auto simp: resolveTarget_def rtsp_url_def url_zero_def urlUser_def splitCredentials_def Let_def)
qed

lemma plain_separable:
  assumes "plain_name user" "plain_name pw" "plain_host h" "plain_path p"
  shows "separable (h, user, pw, p)"
proof -
  have "CHR '':'' \<notin> set user" using plain_name_bytes(3) [OF assms(1)] by blast
  moreover have "CHR ''@'' \<notin> set pw" using plain_name_bytes(2) [OF assms(2), of "CHR ''@''"] by auto
  moreover have "CHR ''/'' \<notin> set h" using plain_host_bytes(2) [OF assms(3), of "CHR ''/''"] by auto
  ultimately show ?thesis using assms(4) by (auto simp: plain_path_def)
qed



text \<open>
  C25. What the parser accepts is complete: a request that is parsed from a non-empty text has a method, a
  URL and a version, and a header map with one value per name; so neither the resolution of the target
  nor the handlers meet the nil URL of a request.
\<close>

theorem parsed_request_complete:
  assumes "NewRequestFromBuffer buffer = Inr request" "buffer \<noteq> []"
  shows "rq_Method request \<noteq> [] \<and> rq_RawURL request \<noteq> [] \<and> rq_ProtocolVersion request \<noteq> [] \<and> rq_URL request \<noteq> None \<and>
    gomap_wf (rq_Headers request) \<and> resolveTarget request c \<noteq> None \<and>
    (\<forall>c' request'. resolveTarget request c = Some (Resolved c' request') \<longrightarrow> GetURL request' \<noteq> None)"
proof -
  obtain rest line r hs t where p: "sharedLineSplit buffer = (rest, line)" "ParseCommand line request_zero = Inr r"
      "parseHeaders rest (rq_Headers r) = Inr (hs, t)" "request = r\<lparr>rq_Headers := hs\<rparr>"
    using assms by (auto simp: NewRequestFromBuffer_def ParseRequest_def split: prod.splits sum.splits)
  have r: "rq_Method r \<noteq> [] \<and> rq_RawURL r \<noteq> [] \<and> rq_ProtocolVersion r \<noteq> [] \<and> rq_URL r \<noteq> None \<and> rq_Headers r = []"
    using p(2) by (auto simp: ParseCommand_def request_zero_def Let_def split: prod.splits sum.splits if_splits)
  with p(3,4) have url: "rq_URL request \<noteq> None" "gomap_wf (rq_Headers request)" using parseHeaders_canonical by auto
  then have "resolveTarget request c \<noteq> None \<and> (\<forall>c' request'. resolveTarget request c = Some (Resolved c' request') \<longrightarrow> rq_URL request' \<noteq> None)"
    by (auto simp: resolveTarget_def Let_def split: if_splits option.splits)
  with r url p(4) show ?thesis by simp
qed

theorem parsed_request_complete_witness:
  "\<exists>request. NewRequestFromBuffer (sample_request ''GET_PARAMETER'') = Inr request \<and> rq_URL request \<noteq> None \<and>
     resolveTarget request sample_client \<noteq> None"
proof -
  obtain w where "serveRequest DefaultConfig quiet_env 0 (sample_request ''GET_PARAMETER'') (sample_client, NewStreamManager) =
      Some (Serving w)" using sample_served by blast
  then obtain request where q: "NewRequestFromBuffer (sample_request ''GET_PARAMETER'') = Inr request"
    using serveRequest_serving by (cases w) metis
  from parsed_request_complete [OF q sample_text(2)] q show ?thesis by blast
qed

section \<open>SETUP\<close>

lemma parseTransport_channels:
  assumes "CHR '';'' \<notin> set chans"
  shows "parseTransport (''RTP/AVP/TCP;unicast;interleaved='' @ chans) =
    (''RTP/AVP/TCP'', ''unicast'', [(''interleaved'', chans)])"
proof -
  let ?t = "''RTP/AVP/TCP;unicast;interleaved='' @ chans"
  have "split (CHR '';'') (''RTP/AVP/TCP'' @ CHR '';'' # ''unicast'' @ CHR '';'' # (''interleaved='' @ chans)) =
      [''RTP/AVP/TCP'', ''unicast'', ''interleaved='' @ chans]"
    using assms by (subst split_append, simp)+ simp
  then have sp: "split (CHR '';'') ?t = [''RTP/AVP/TCP'', ''unicast'', ''interleaved='' @ chans]" by simp
  have "splitN 2 (CHR ''='') (''interleaved'' @ CHR ''='' # chans) = [''interleaved'', chans]"
    by (rule splitN_two_append) simp
  then have "fold addParam [''interleaved='' @ chans] [] = [(''interleaved'', chans)]"
    by (simp add: addParam_def)
  with sp show ?thesis by (simp add: parseTransport_def Let_def del: append.simps)
qed

lemma AddClient_in: "AddClient cfg client sid s = Some (cs, s') \<Longrightarrow> mget (st_clients s') client = Some cs"
  by (auto simp: AddClient_def stopIdleTimer_def startConnectLoop_def Let_def split: option.splits if_splits)

lemma MapChannel_get:
  "mget (st_clients s) client = Some cs \<Longrightarrow>
   mget (st_clients (MapChannel client u d s)) client = Some (cs\<lparr>cs_channels := mput u d (cs_channels cs)\<rparr>)"
  by (simp add: MapChannel_def)

lemma mapChannels_two:
  assumes "mapChannels client (itoa a @ ''-'' @ itoa b) t s = Some s'" "mget (st_clients s) client = Some cs"
    and "0 \<le> a" "a \<le> maxInt64" "0 \<le> b" "b \<le> maxInt64"
  shows "\<exists>sub0 sub1 cs'. mget (tr_Substreams t) 0 = Some sub0 \<and> mget (tr_Substreams t) 1 = Some sub1 \<and>
    mget (st_clients s') client = Some cs' \<and> cs_queue cs' = cs_queue cs \<and>
    cs_channels cs' = mput (su_Channel sub1) b (mput (su_Channel sub0) a (cs_channels cs))"
proof -
  have "split (CHR ''-'') (itoa a @ CHR ''-'' # itoa b) = [itoa a, itoa b]"
    using assms by (simp add: split_append itoa_free not_digits)
  moreover have "fst (atoi (itoa a)) = a" "fst (atoi (itoa b)) = b" using assms by (simp_all add: atoi_itoa)
  ultimately obtain sub0 sub1 where sub: "mget (tr_Substreams t) 0 = Some sub0" "mget (tr_Substreams t) 1 = Some sub1"
      "s' = MapChannel client (su_Channel sub1) b (MapChannel client (su_Channel sub0) a s)"
    using assms(1) by (auto simp: mapChannels_def Let_def split: option.splits)
  from MapChannel_get [OF MapChannel_get [OF assms(2)], of "su_Channel sub1" b "su_Channel sub0" a] sub show ?thesis by auto
qed

text \<open>
  C9. A SETUP that is granted connects the channels: the camera's transport has two channels, the client
  is registered with the stream, and a packet that the camera then sends on one of these channels is
  queued for the client with the channel that the client asked for, if its queue has room.
\<close>

theorem setup_connects_channels:
  assumes "Client_handleSetup cfg e client c s request = Some (r, s')" "rs_Code r = 200"
    and "headerGet (rq_Headers request) ''Transport'' = ''RTP/AVP/TCP;unicast;interleaved='' @ itoa a @ ''-'' @ itoa b"
    and "0 \<le> a" "a \<le> maxInt64" "0 \<le> b" "b \<le> maxInt64"
  shows "\<exists>u sid t sub0 sub1 cs. rq_URL request = Some u \<and>
    Stream_LookupTransport (split_file (Path u), ''RTP/AVP/TCP'', ''unicast'') (he_others e (Stream_Start (he_now e) s)) = Some (sid, t) \<and>
    mget (tr_Substreams t) 0 = Some sub0 \<and> mget (tr_Substreams t) 1 = Some sub1 \<and> mget (st_clients s') client = Some cs \<and>
    (\<forall>channel d now packet mt s2 mt2. dispatch cfg now channel packet s' mt = Some (s2, mt2) \<longrightarrow> 0 < cs_room cs \<longrightarrow>
       (channel, d) \<in> (if su_Channel sub0 = su_Channel sub1 then {(su_Channel sub1, b)}
                       else {(su_Channel sub0, a), (su_Channel sub1, b)}) \<longrightarrow>
       (\<exists>cs2. mget (st_clients s2) client = Some cs2 \<and> cs_contents cs2 = cs_contents cs @ [clientPacket d packet]))"
  using assms(1) refl
proof (cases rule: Client_handleSetup_cases)
  case refused
  with assms(2) show ?thesis by simp
next
  case (granted u protocol comType params sid t cs0 s1)
  have "CHR '';'' \<notin> set (itoa a @ ''-'' @ itoa b)" using assms(4,6) by (simp add: itoa_free not_digits)
  from parseTransport_channels [OF this] granted(2) assms(3)
  have pt: "protocol = ''RTP/AVP/TCP''" "comType = ''unicast''" "params = [(''interleaved'', itoa a @ ''-'' @ itoa b)]" by auto
  then have mc: "mapChannels client (itoa a @ ''-'' @ itoa b) t s1 = Some s'" using granted(5) by (simp add: mget_str_def)
  from mapChannels_two [OF mc AddClient_in [OF granted(4)] assms(4-7)]
  obtain sub0 sub1 cs where sub: "mget (tr_Substreams t) 0 = Some sub0" "mget (tr_Substreams t) 1 = Some sub1"
      "mget (st_clients s') client = Some cs" "cs_channels cs = mput (su_Channel sub1) b (mput (su_Channel sub0) a (cs_channels cs0))"
    by blast
  have "\<exists>cs2. mget (st_clients s2) client = Some cs2 \<and> cs_contents cs2 = cs_contents cs @ [clientPacket d packet]"
    if "dispatch cfg now channel packet s' mt = Some (s2, mt2)" "0 < cs_room cs" "mget (cs_channels cs) channel = Some d"
    for now channel d packet mt s2 mt2
    using dispatch_client [OF that(1) sub(3)] that(2,3) queue.push_room [OF that(2), of "clientPacket d packet"]
    by (auto simp: deliver_def split: prod.splits)
  moreover have "mget (cs_channels cs) channel = Some d"
    if "(channel, d) \<in> (if su_Channel sub0 = su_Channel sub1 then {(su_Channel sub1, b)} else {(su_Channel sub0, a), (su_Channel sub1, b)})"
    for channel d using that by (auto simp: sub(4) split: if_splits)
  moreover obtain u0 where "rq_URL request = Some u0" "Path u0 = Path u"
    using granted(1) by (auto simp: GetURL_def Let_def)
  ultimately show ?thesis using granted(3) sub(1-3) by (auto simp: pt)
qed

text \<open>A playing stream with one track, whose transport has the given channels of the camera.\<close>

definition track_stream :: "(int, substream) gomap \<Rightarrow> stream" where
  "track_stream subs =
     (NewStream DefaultConfig 0 ''cam'' [] [] ''/ch1'')
       \<lparr>st_state := StatePlaying, st_remote := NewRemote True ''cam'' [] [],
        st_sessions := [(''77'', (NewSession ''77'' 60)
          \<lparr>se_Transports := [(NewTransport ''trackID=1'' ''RTP/AVP/TCP'' ''unicast'')\<lparr>tr_Substreams := subs\<rparr>]\<rparr>)]\<rparr>"

definition setup_request :: request where
  "setup_request = (NewRequest ''SETUP'' (Some (rtsp_url ''cam'' ''/ch1/trackID=1'')) [])
     \<lparr>rq_Headers := [(''Transport'', ''RTP/AVP/TCP;unicast;interleaved='' @ itoa 4 @ ''-'' @ itoa 5)]\<rparr>"

theorem setup_connects_channels_witness:
  "\<exists>r s' cs s2 mt2 cs2.
     Client_handleSetup DefaultConfig quiet_env 0 sample_client
       (track_stream [(0, (NewSubstream ''t'')\<lparr>su_Channel := 8\<rparr>), (1, (NewSubstream ''t'')\<lparr>su_Channel := 9\<rparr>)]) setup_request = Some (r, s') \<and>
     mget (st_clients s') 0 = Some cs \<and> dispatch DefaultConfig 1 8 (binaryFrame 8 ''rtp'') s' metrics_zero = Some (s2, mt2) \<and>
     mget (st_clients s2) 0 = Some cs2 \<and> cs_contents cs2 = cs_contents cs @ [binaryFrame 4 ''rtp'']"
proof -
  let ?s = "track_stream [(0, (NewSubstream ''t'')\<lparr>su_Channel := 8\<rparr>), (1, (NewSubstream ''t'')\<lparr>su_Channel := 9\<rparr>)]"
  let ?h = "Client_handleSetup DefaultConfig quiet_env 0 sample_client ?s setup_request"
  let ?d = "\<lambda>s'. dispatch DefaultConfig 1 8 (binaryFrame 8 ''rtp'') s' metrics_zero"
  have "map_option (\<lambda>(r, s'). (rs_Code r, map_option (\<lambda>cs. 0 < cs_room cs) (mget (st_clients s') 0), Option.is_none (?d s'))) ?h =
      Some (200, Some True, False)" by code_simp
  then obtain r s' s2 mt2 cs where h: "?h = Some (r, s')" "rs_Code r = 200" "mget (st_clients s') 0 = Some cs" "0 < cs_room cs"
      "?d s' = Some (s2, mt2)"
    by (auto simp: Option.is_none_def)
  have tr: "headerGet (rq_Headers setup_request) ''Transport'' = ''RTP/AVP/TCP;unicast;interleaved='' @ itoa 4 @ ''-'' @ itoa 5" by code_simp
  have lt: "map_option (\<lambda>(sid, t). (map_option su_Channel (mget (tr_Substreams t) 0), map_option su_Channel (mget (tr_Substreams t) 1)))
      (Stream_LookupTransport (split_file ''/ch1/trackID=1'', ''RTP/AVP/TCP'', ''unicast'') (he_others quiet_env (Stream_Start (he_now quiet_env) ?s))) =
    Some (Some 8, Some 9)" by code_simp
  have url: "rq_URL setup_request = Some (rtsp_url ''cam'' ''/ch1/trackID=1'')" "Path (rtsp_url ''cam'' ''/ch1/trackID=1'') = ''/ch1/trackID=1''"
    by (simp_all add: setup_request_def NewRequest_def rtsp_url_def)
  have cp: "clientPacket 4 (binaryFrame 8 ''rtp'') = binaryFrame 4 ''rtp''" by (simp add: clientPacket_def binaryFrame_def)
  from setup_connects_channels [OF h(1,2) tr] lt url h(3) obtain cs' where
      cs': "mget (st_clients s') 0 = Some cs'"
      "\<exists>cs2. mget (st_clients s2) 0 = Some cs2 \<and> cs_contents cs2 = cs_contents cs' @ [clientPacket 4 (binaryFrame 8 ''rtp'')]"
    using h(4,5) by force
  with h cp show ?thesis by auto
qed


section \<open>Packets of the client\<close>

lemma clientInput_frame:
  assumes "0 \<le> channel" "channel < 256" "length data < 65536"
  shows "clientInput (binaryFrame channel data @ rest) = Binary channel data rest"
proof -
  have len: "pktLen (binaryFrame channel data @ rest) = length data"
    using pktLen_bytes [OF assms(3), of "CHR ''$''" "to_byte channel" "data @ rest"] by (simp add: binaryFrame_def)
  have "byte_val ((binaryFrame channel data @ rest) ! 1) = channel" using assms(1,2) by (simp add: binaryFrame_def)
  moreover have "take (length data) (drop 4 (binaryFrame channel data @ rest)) = data"
    "drop (4 + length data) (binaryFrame channel data @ rest) = rest"
    "hd (binaryFrame channel data @ rest) = CHR ''$''" "binaryFrame channel data \<noteq> []"
    "length (binaryFrame channel data @ rest) = 4 + length data + length rest"
    by (simp_all add: binaryFrame_def numeral_eq_Suc)
  ultimately show ?thesis using len by (simp add: clientInput_def Let_def)
qed

lemma find_value: "(u, d) \<in> set m \<Longrightarrow> distinct (map snd m) \<Longrightarrow> List.find (\<lambda>(u, c). c = d) m = Some (u, d)"
  by (induction m) (auto simp: rev_image_eqI)

text \<open>
  C20. The way back: a packet that a client sends on one of its channels (RTCP, say) goes to the camera
  as one packet with the same data, on the channel of the camera that its SETUP connected to this
  channel. Bytes that follow it stay in the buffer.
\<close>

theorem client_packet_forwarded:
  assumes "0 \<le> d" "d < 256" "length data < 65533" "cl_currentStream c = Some n" "getStream n m = Some s"
    and "st_remote s = Some r" "rm_conn r" "mget (st_clients s) client = Some cs"
    and "(u, d) \<in> set (cs_channels cs)" "distinct (map snd (cs_channels cs))" "ne_write net = None" "ne_writeData net = None"
  shows "\<exists>m' s' r'. incomingRequestHandler cfg now client [ClientBytes (binaryFrame d data) e net] [] (c, m) = Some (c, m') \<and>
    getStream n m' = Some s' \<and> st_remote s' = Some r' \<and> concat (rm_wire r') = concat (rm_wire r) @ binaryFrame u data"
proof -
  have "List.find (\<lambda>(u, c). c = d) (cs_channels cs) = Some (u, d)" by (rule find_value [OF assms(9,10)])
  then have up: "upstreamChannel client d s = u" using assms(8) by (simp add: upstreamChannel_def)
  have len: "length (binaryFrame d data) = 4 + length data" by (simp add: binaryFrame_def)
  have rd: "clientRead [] (binaryFrame d data) = binaryFrame d data" using assms(3) len by (simp add: clientRead_def)
  have ne: "binaryFrame d data \<noteq> []" by (simp add: binaryFrame_def)
  let ?r = "snd (SendBinary net u data r)" and ?s = "forwardBinary net client d data s"
  have s': "st_remote ?s = Some ?r" by (simp add: forwardBinary_def assms(6) up)
  have "rm_wire ?r = rm_wire r @ [take 4 (binaryFrame u data), data]"
    using assms(7,11,12) by (simp add: SendBinary_def Let_def)
  moreover have "take 4 (binaryFrame u data) @ data = binaryFrame u data" by (simp add: binaryFrame_def numeral_eq_Suc)
  ultimately have "concat (rm_wire ?r) = concat (rm_wire r) @ binaryFrame u data" by (metis append_Nil2 concat.simps concat_append)
  moreover have "incomingRequestHandler cfg now client [ClientBytes (binaryFrame d data) e net] [] (c, m) = Some (c, setStream n ?s m)"
    using clientInput_frame [OF assms(1,2), of data "[]"] assms(3-5) rd ne by (simp add: Let_def serveBinary_def)
  moreover have "getStream n (setStream n ?s m) = Some ?s" using assms(5) by (auto simp: getStream_def setStream_store)
  ultimately show ?thesis using s' by blast
qed

text \<open>
  A packet header that announces more data than the buffer can hold wedges the connection: once the
  first four bytes are there, no read makes the packet complete, so every later byte is ignored until
  the connection ends.
\<close>

theorem oversized_packet_wedges:
  assumes "buffer \<noteq> []" "hd buffer = CHR ''$''" "4 \<le> length buffer" "length buffer \<le> rtspBufferSize"
    and "rtspBufferSize - 4 < pktLen buffer"
  shows "incomingRequestHandler cfg now client (map (\<lambda>(recv, e, net). ClientBytes recv e net) reads) buffer w = Some w"
  using assms
proof (induction reads arbitrary: buffer)
  case (Cons x reads)
  obtain recv e net where x: "x = (recv, e, net)" by (cases x)
  let ?b = "clientRead buffer recv"
  have b: "?b \<noteq> []" "hd ?b = CHR ''$''" "4 \<le> length ?b" "length ?b \<le> rtspBufferSize" "pktLen ?b = pktLen buffer"
    using Cons.prems by (simp_all add: clientRead_def pktLen_append)
  then have "clientInput ?b = MoreBytes" using Cons.prems(5) by (simp add: clientInput_def Let_def)
  with Cons.IH [OF b(1-4)] Cons.prems(5) b(5) show ?case by (auto simp: x Let_def)
qed simp

theorem oversized_packet_wedges_witness:
  "incomingRequestHandler DefaultConfig 0 0 [ClientBytes (sample_request ''TEARDOWN'') quiet_env net_ok]
     [CHR ''$'', CHR 0x00, CHR 0xFF, CHR 0xFF] (sample_client, NewStreamManager) = Some (sample_client, NewStreamManager)"
proof -
  have "pktLen [CHR ''$'', CHR 0x00, CHR 0xFF, CHR 0xFF] = 65535" by (simp add: pktLen_def byte_val_def numeral_2_eq_2 numeral_3_eq_3)
  then show ?thesis
    using oversized_packet_wedges [of "[CHR ''$'', CHR 0x00, CHR 0xFF, CHR 0xFF]" DefaultConfig 0 0
        "[(sample_request ''TEARDOWN'', quiet_env, net_ok)]" "(sample_client, NewStreamManager)"] by simp
qed

text \<open>A client with channels 4 and 5 on a stream whose camera uses the channels 8 and 9.\<close>

definition joined_stream :: stream where
  "joined_stream =
     (NewStream DefaultConfig 0 ''cam'' [] [] ''/ch1'')
       \<lparr>st_remote := map_option (\<lambda>r. r\<lparr>rm_conn := True\<rparr>) (NewRemote True ''cam'' [] []),
        st_clients := [(0, (the (NewClientSession DefaultConfig 0 ''77''))\<lparr>cs_channels := [(8, 4), (9, 5)]\<rparr>)]\<rparr>"

definition joined_manager :: manager where
  "joined_manager = setStream 0 joined_stream (snd (GetStream DefaultConfig 0 (''cam'', [], [], ''/ch1'') NewStreamManager))"

theorem client_packet_forwarded_witness:
  "\<exists>m' s' r'. incomingRequestHandler DefaultConfig 0 0 [ClientBytes (binaryFrame 5 ''rtcp'') quiet_env net_ok] []
       (sample_client\<lparr>cl_currentStream := Some 0\<rparr>, joined_manager) = Some (sample_client\<lparr>cl_currentStream := Some 0\<rparr>, m') \<and>
     getStream 0 m' = Some s' \<and> st_remote s' = Some r' \<and> concat (rm_wire r') = binaryFrame 9 ''rtcp''"
proof -
  let ?c = "sample_client\<lparr>cl_currentStream := Some 0\<rparr>"
  let ?cs = "(the (NewClientSession DefaultConfig 0 ''77''))\<lparr>cs_channels := [(8, 4), (9, 5)]\<rparr>"
  obtain r where r: "st_remote joined_stream = Some r" "rm_conn r" "rm_wire r = []"
    by (simp add: joined_stream_def NewRemote_def)
  have "mget (st_clients joined_stream) 0 = Some ?cs" by (simp add: joined_stream_def)
  moreover have "getStream 0 joined_manager = Some joined_stream"
    by (simp add: joined_manager_def getStream_def setStream_def NewStreamManager_def Let_def)
  ultimately show ?thesis
    using client_packet_forwarded [of 5 "''rtcp''" ?c 0 joined_manager joined_stream r 0 ?cs 9 net_ok DefaultConfig 0 quiet_env] r
    by (simp add: net_ok_def)
qed

section \<open>From the queue to the socket\<close>

text \<open>
  The two goroutines between the queue of a client session and the socket of the client: the session's
  writer hands a packet to the write channel, the client's writer writes one.
\<close>

datatype pipe_action = Forward | WriteOut

fun pipe :: "pipe_action list \<Rightarrow> client_session \<times> client \<Rightarrow> (client_session \<times> client) option" where
  "pipe [] x = Some x"
| "pipe (Forward # acts) (cs, c) =
     (case run PickForward False cs (cl_writeChan c) of
        Ran cs ch _ \<Rightarrow> pipe acts (cs, c\<lparr>cl_writeChan := ch\<rparr>)
      | _ \<Rightarrow> None)"
| "pipe (WriteOut # acts) (cs, c) =
     (if ch_buf (cl_writeChan c) = [] then None else pipe acts (cs, writer False None c))"

definition in_flight :: "client_session \<times> client \<Rightarrow> string list" where
  "in_flight x = cl_wire (snd x) @ ch_buf (cl_writeChan (snd x)) @ cs_contents (fst x)"

lemma run_forward:
  "run PickForward False cs ch = Ran cs' ch' slow \<Longrightarrow> ch_buf ch' @ cs_contents cs' = ch_buf ch @ cs_contents cs"
  by (auto simp: run_def tryRecv_def trySend_def cs_contents_def split: list.splits option.splits if_splits)

lemma writer_writes:
  "cl_writing c \<Longrightarrow> ch_buf (cl_writeChan c) \<noteq> [] \<Longrightarrow>
   cl_writing (writer False None c) \<and>
   cl_wire (writer False None c) @ ch_buf (cl_writeChan (writer False None c)) = cl_wire c @ ch_buf (cl_writeChan c)"
  by (auto simp: writer_def tryRecv_def split: list.splits)

lemma pipe_order: "pipe acts x = Some x' \<Longrightarrow> cl_writing (snd x) \<Longrightarrow> in_flight x' = in_flight x"
proof (induction acts arbitrary: x)
  case (Cons a acts)
  obtain cs c where x: "x = (cs, c)" by (cases x)
  show ?case
  proof (cases a)
    case Forward
    with Cons.prems(1) obtain cs1 ch1 slow where r: "run PickForward False cs (cl_writeChan c) = Ran cs1 ch1 slow"
        "pipe acts (cs1, c\<lparr>cl_writeChan := ch1\<rparr>) = Some x'"
      by (auto simp: x split: run_result.splits)
    have "in_flight x' = in_flight (cs1, c\<lparr>cl_writeChan := ch1\<rparr>)" using Cons.IH [OF r(2)] Cons.prems(2) by (simp add: x)
    also have "\<dots> = in_flight x" using run_forward [OF r(1)] by (simp add: x in_flight_def)
    finally show ?thesis .
  next
    case WriteOut
    with Cons.prems(1) have w: "ch_buf (cl_writeChan c) \<noteq> []" "pipe acts (cs, writer False None c) = Some x'"
      by (auto simp: x split: if_splits)
    note ww = writer_writes [OF _ w(1)]
    have "in_flight x' = in_flight (cs, writer False None c)" using Cons.IH [OF w(2)] Cons.prems(2) ww by (simp add: x)
    also have "\<dots> = in_flight x" using Cons.prems(2) ww by (simp add: x in_flight_def)
    finally show ?thesis .
  qed
qed simp

definition pipe_ready :: "client_session \<times> client \<Rightarrow> bool" where
  "pipe_ready x = (cs_running (fst x) \<and> cl_writing (snd x) \<and> \<not> ch_closed (cl_writeChan (snd x)) \<and>
     ch_buf (cl_writeChan (snd x)) = [] \<and> 0 < ch_cap (cl_writeChan (snd x)))"

lemma pipe_flushes:
  assumes "pipe_ready x"
  shows "\<exists>x'. pipe (concat (replicate (length (cs_contents (fst x))) [Forward, WriteOut])) x = Some x' \<and> pipe_ready x' \<and>
    cs_contents (fst x') = []"
  using assms
proof (induction "cs_contents (fst x)" arbitrary: x)
  case Nil
  then show ?case by simp
next
  case (Cons p ps)
  obtain cs c where x: "x = (cs, c)" by (cases x)
  let ?q = "(cs_queue cs)\<lparr>ch_buf := ps\<rparr>" and ?ch = "(cl_writeChan c)\<lparr>ch_buf := [p]\<rparr>"
  let ?y = "(cs\<lparr>cs_queue := ?q\<rparr>, c\<lparr>cl_writeChan := (cl_writeChan c)\<lparr>ch_buf := []\<rparr>, cl_wire := cl_wire c @ [p]\<rparr>)"
  have q: "ch_buf (cs_queue cs) = p # ps" using Cons.hyps(2) by (simp add: x cs_contents_def)
  have "run PickForward False cs (cl_writeChan c) = Ran (cs\<lparr>cs_queue := ?q\<rparr>) ?ch False"
    using Cons.prems q by (simp add: x pipe_ready_def run_def tryRecv_def trySend_def)
  moreover have "writer False None (c\<lparr>cl_writeChan := ?ch\<rparr>) = snd ?y"
    using Cons.prems by (simp add: x pipe_ready_def writer_def tryRecv_def)
  ultimately have step: "pipe (Forward # WriteOut # acts) x = pipe acts ?y" for acts by (simp add: x)
  have "pipe_ready ?y" "ps = cs_contents (fst ?y)" using Cons.prems by (simp_all add: x pipe_ready_def cs_contents_def)
  note IH = Cons.hyps(1) [OF this(2,1)]
  have len: "cs_contents (fst x) = p # ps" using Cons.hyps(2) by simp
  have "cs_contents (fst ?y) = ps" by (simp add: cs_contents_def)
  with IH show ?case unfolding len by (simp add: step del: pipe.simps)
qed


definition queued_session :: client_session where
  "queued_session = fst (Push ''$b'' (fst (Push ''$a'' (ClientSession_Start (the (NewClientSession DefaultConfig 0 ''77''))))))"


section \<open>Leaving\<close>

text \<open>
  When the connection of a client ends, nothing of it is left: the client is no longer registered
  with its stream, its connection is closed, the gauge of clients goes down by one, and a second
  \<open>Destroy\<close> (the slow-client path may have called it before) does nothing. None of this can panic.
\<close>

theorem client_leaves:
  assumes "reach (\<lambda>m. m = NewStreamManager) (manager_step cfg) m" "cl_currentStream c = Some n" "getStream n m = Some s"
    and "\<not> cl_destroyed c" "\<not> ch_closed (cl_writeChan c)"
  shows "\<exists>c' m' s'. leaveClient now client (c, m) = Some (c', m') \<and>
    getStream n m' = Some s' \<and> mget (st_clients s') client = None \<and>
    cl_destroyed c' \<and> \<not> cl_open c' \<and> m_ActiveClients (sm_metrics m') = wrap64 (m_ActiveClients (sm_metrics m) - 1) \<and>
    (\<forall>mt. Client_Destroy (c', mt) = Some (c', mt))"
proof -
  have "manager_inv m" by (rule managers.reach_inv [OF assms(1)])
  moreover obtain key where "mget (sm_store m) n = Some (key, s)" using assms(3) by (auto simp: getStream_def)
  ultimately have "clients_inv s" using manager_invD(4) by (auto simp: stream_inv_def)
  then obtain s' where s': "RemoveClient now client s = Some s'" "st_clients s' = mdel client (st_clients s)"
    using RemoveClient_removes by blast
  have "getStream n (setStream n s' m) = Some s'" using assms(3) by (auto simp: getStream_def setStream_store)
  moreover have "getStream n (m\<lparr>sm_metrics := mt\<rparr>) = getStream n m" for m mt by (simp add: getStream_def)
  ultimately show ?thesis
    using assms(2-5) s' by (auto simp: leaveClient_def Client_Destroy_def closeChan_def addActiveClients_def)
qed

theorem client_leaves_witness:
  "\<exists>c' m' s'. leaveClient 9 0 (sample_client\<lparr>cl_currentStream := Some 0\<rparr>,
       snd (GetStream DefaultConfig 0 (''cam'', [], [], ''/ch1'') NewStreamManager)) = Some (c', m') \<and>
     getStream 0 m' = Some s' \<and> mget (st_clients s') 0 = None \<and> cl_destroyed c'"
proof -
  let ?m = "snd (GetStream DefaultConfig 0 (''cam'', [], [], ''/ch1'') NewStreamManager)"
  have "reach (\<lambda>m. m = NewStreamManager) (manager_step DefaultConfig) ?m" by (rule reach_step [OF manager_start manager_get])
  moreover obtain s where "getStream 0 ?m = Some s" by (simp add: getStream_def NewStreamManager_def Let_def)
  moreover have "\<not> cl_destroyed sample_client" "\<not> ch_closed (cl_writeChan sample_client)"
    by (simp_all add: sample_client_def NewClient_def make_chan_def Let_def)
  ultimately show ?thesis
    using client_leaves [of DefaultConfig ?m "sample_client\<lparr>cl_currentStream := Some 0\<rparr>" 0 s 9 0] by auto
qed

end
