(* ===== verification/Client_Teardown.thy ===== *)
theory Client_Teardown
  imports Rtsp_Client
begin

text \<open>
  The end of a client, with its goroutines interleaved: the handler that reads requests
  (\<open>incomingRequestHandler\<close>), the writer of its session (\<open>run\<close>), which destroys a slow client by itself, the
  writer of the connection (\<open>writer\<close>), and the read loop of the stream that pushes packets. The property:
  nobody ever sends on the closed write channel or closes a channel twice, and nothing is left in the
  end.
\<close>

section \<open>Definitions\<close>

text \<open>
  Where the handler is: reading, handling a request (and whether the request has removed the client from
  the stream), before \<open>RemoveClient\<close> and before \<open>Destroy\<close> of its deferred function, or gone.
\<close>

datatype phase = AtRead | InRequest bool | AtRemove | AtDestroy | Gone

text \<open>The session in the map of the stream, and the sessions that were taken out of it.\<close>

record connection =
  cn_client :: client
  cn_session :: "client_session option"
  cn_removed :: "client_session list"
  cn_phase :: phase

text \<open>
  The steps of the goroutines. A request is read while the connection is open; it may add the client to the
  stream (\<open>AddClient\<close> in \<open>handleSetup\<close> and \<open>handlePlay\<close>; a client that is there stays) or remove it
  (\<open>handleTeardown\<close>), and is answered; the handler may leave at any time. A session that is too slow
  destroys the client in the same step.
\<close>

inductive conn_step :: "config \<Rightarrow> connection \<Rightarrow> connection \<Rightarrow> bool" for cfg where
  conn_read: "cn_phase x = AtRead \<Longrightarrow> cl_open (cn_client x) \<Longrightarrow> conn_step cfg x (x\<lparr>cn_phase := InRequest False\<rparr>)"
| conn_add: "cn_phase x = InRequest False \<Longrightarrow> cn_session x = None \<Longrightarrow> NewClientSession cfg client sessionID = Some cs \<Longrightarrow>
    conn_step cfg x (x\<lparr>cn_session := Some (ClientSession_Start cs)\<rparr>)"
| conn_map: "cn_session x = Some cs \<Longrightarrow> conn_step cfg x (x\<lparr>cn_session := Some (cs\<lparr>cs_channels := channels\<rparr>)\<rparr>)"
| conn_remove: "cn_phase x = InRequest False \<Longrightarrow> cn_session x = Some cs \<Longrightarrow> ClientSession_Stop cs = Some cs' \<Longrightarrow>
    conn_step cfg x (x\<lparr>cn_session := None, cn_removed := cs' # cn_removed x, cn_phase := InRequest True\<rparr>)"
| conn_answer: "cn_phase x = InRequest removed \<Longrightarrow>
    conn_step cfg x (x\<lparr>cn_client := writeConn response (cn_client x), cn_phase := AtRead\<rparr>)"
| conn_push: "cn_session x = Some cs \<Longrightarrow> conn_step cfg x (x\<lparr>cn_session := Some (fst (Push packet cs))\<rparr>)"
| conn_run: "cn_session x = Some cs \<Longrightarrow> run pick serverDone cs (cl_writeChan (cn_client x)) = Ran cs' ch False \<Longrightarrow>
    conn_step cfg x (x\<lparr>cn_session := Some cs', cn_client := (cn_client x)\<lparr>cl_writeChan := ch\<rparr>\<rparr>)"
| conn_slow: "cn_session x = Some cs \<Longrightarrow> run pick serverDone cs (cl_writeChan (cn_client x)) = Ran cs' ch True \<Longrightarrow>
    Client_Destroy ((cn_client x)\<lparr>cl_writeChan := ch\<rparr>, mt) = Some (c, mt') \<Longrightarrow>
    conn_step cfg x (x\<lparr>cn_session := Some cs', cn_client := c\<rparr>)"
| conn_removed_run: "cs \<in> set (cn_removed x) \<Longrightarrow> run pick serverDone cs (cl_writeChan (cn_client x)) = Ran cs' ch False \<Longrightarrow>
    conn_step cfg x (x\<lparr>cn_removed := cs' # remove1 cs (cn_removed x), cn_client := (cn_client x)\<lparr>cl_writeChan := ch\<rparr>\<rparr>)"
| conn_removed_slow: "cs \<in> set (cn_removed x) \<Longrightarrow> run pick serverDone cs (cl_writeChan (cn_client x)) = Ran cs' ch True \<Longrightarrow>
    Client_Destroy ((cn_client x)\<lparr>cl_writeChan := ch\<rparr>, mt) = Some (c, mt') \<Longrightarrow>
    conn_step cfg x (x\<lparr>cn_removed := cs' # remove1 cs (cn_removed x), cn_client := c\<rparr>)"
| conn_write: "conn_step cfg x (x\<lparr>cn_client := writer serverDone err (cn_client x)\<rparr>)"
| conn_leave: "cn_phase x \<in> {AtRead, InRequest removed} \<Longrightarrow> conn_step cfg x (x\<lparr>cn_phase := AtRemove\<rparr>)"
| conn_leave_remove: "cn_phase x = AtRemove \<Longrightarrow> cn_session x = Some cs \<Longrightarrow> ClientSession_Stop cs = Some cs' \<Longrightarrow>
    conn_step cfg x (x\<lparr>cn_session := None, cn_removed := cs' # cn_removed x, cn_phase := AtDestroy\<rparr>)"
| conn_leave_unknown: "cn_phase x = AtRemove \<Longrightarrow> cn_session x = None \<Longrightarrow> conn_step cfg x (x\<lparr>cn_phase := AtDestroy\<rparr>)"
| conn_leave_destroy: "cn_phase x = AtDestroy \<Longrightarrow> Client_Destroy (cn_client x, mt) = Some (c, mt') \<Longrightarrow>
    conn_step cfg x (x\<lparr>cn_client := c, cn_phase := Gone\<rparr>)"

definition conn_init :: "connection \<Rightarrow> bool" where
  "conn_init x = (cn_session x = None \<and> cn_removed x = [] \<and> cn_phase x = AtRead \<and> (\<exists>loc rem mt mt'. NewClient loc rem mt = Some (cn_client x, mt')))"

text \<open>No goroutine can panic in its next step.\<close>

definition run_safe :: "client \<Rightarrow> client_session \<Rightarrow> bool" where
  "run_safe c cs =
     (\<forall>pick serverDone.
        case run pick serverDone cs (cl_writeChan c) of
          RunPanic \<Rightarrow> False
        | Ran cs' ch slow \<Rightarrow> (\<forall>mt. Client_Destroy (c\<lparr>cl_writeChan := ch\<rparr>, mt) \<noteq> None)
        | Blocked \<Rightarrow> True)"

definition conn_safe :: "connection \<Rightarrow> bool" where
  "conn_safe x =
     ((\<forall>mt. Client_Destroy (cn_client x, mt) \<noteq> None) \<and>
      (\<forall>cs. cn_session x = Some cs \<longrightarrow> ClientSession_Stop cs \<noteq> None \<and> run_safe (cn_client x) cs) \<and>
      (\<forall>cs \<in> set (cn_removed x). run_safe (cn_client x) cs))"

section \<open>The invariant\<close>

definition client_inv :: "client \<Rightarrow> bool" where
  "client_inv c =
     (ch_closed (cl_writeChan c) = cl_destroyed c \<and>
      (cl_destroyed c \<longrightarrow> \<not> cl_open c \<and> \<not> cl_writing c \<and> ch_buf (cl_writeChan c) = []))"

definition conn_inv :: "connection \<Rightarrow> bool" where
  "conn_inv x =
     (client_inv (cn_client x) \<and>
      (case cn_session x of
         None \<Rightarrow> cl_destroyed (cn_client x) \<longrightarrow> cn_phase x \<noteq> InRequest False
       | Some cs \<Rightarrow> cs_active cs \<and> \<not> cs_quitClosed cs \<and> (cl_destroyed (cn_client x) \<longrightarrow> \<not> cs_running cs) \<and>
           cn_phase x \<notin> {AtDestroy, Gone}) \<and>
      (\<forall>cs \<in> set (cn_removed x). \<not> cs_running cs) \<and>
      (cn_phase x = Gone \<longrightarrow> cl_destroyed (cn_client x)))"

lemma client_inv_writer: "client_inv c \<Longrightarrow> client_inv (writer serverDone err c) \<and> cl_destroyed (writer serverDone err c) = cl_destroyed c"
  by (auto simp: client_inv_def writer_def tryRecv_def split: list.splits option.splits)

lemma Destroy_inv:
  assumes "client_inv c" "Client_Destroy (c, mt) = Some (c', mt')"
  shows "client_inv c' \<and> cl_destroyed c'"
  using assms by (auto simp: client_inv_def Client_Destroy_def closeChan_def split: if_splits)

lemma Destroy_returns: "client_inv c \<Longrightarrow> Client_Destroy (c, mt) \<noteq> None"
  by (auto simp: client_inv_def Client_Destroy_def closeChan_def)

lemma run_ran:
  assumes "run pick serverDone cs ch = Ran cs' ch' slow"
  shows "cs_running cs" "cs_active cs' = cs_active cs" "cs_quitClosed cs' = cs_quitClosed cs" "ch_closed ch' = ch_closed ch"
    "slow \<longrightarrow> \<not> cs_running cs'"
  using assms by (auto simp: run_def runExit_def trySend_def split: if_splits run_pick.splits option.splits)

lemma NewClient_inv: "NewClient loc rem mt = Some (c, mt') \<Longrightarrow> client_inv c \<and> \<not> cl_destroyed c"
  by (auto simp: NewClient_def client_inv_def make_chan_def Let_def split: if_splits)

lemma Stop_stops: "ClientSession_Stop cs = Some cs' \<Longrightarrow> cs_active cs \<Longrightarrow> \<not> cs_running cs'"
  by (auto simp: ClientSession_Stop_def runExit_def Let_def split: if_splits)

lemma conn_inv_step:
  assumes "conn_inv x" "conn_step cfg x y"
  shows "conn_inv y"
  using assms(2)
proof cases
  case conn_read
  then show ?thesis using assms(1) by (auto simp: conn_inv_def client_inv_def split: option.splits)
next
  case (conn_add client sessionID cs)
  then show ?thesis using assms(1)
    by (auto simp: conn_inv_def ClientSession_Start_def NewClientSession_def split: if_splits)
next
  case (conn_run cs pick serverDone cs' ch)
  then have "\<not> cl_destroyed (cn_client x)" using assms(1) run_ran(1) [OF conn_run(3)] by (simp add: conn_inv_def)
  then show ?thesis using assms(1) conn_run(1,2) run_ran [OF conn_run(3)] by (simp add: conn_inv_def client_inv_def)
next
  case (conn_slow cs pick serverDone cs' ch mt c mt')
  note r = run_ran [OF conn_slow(3)]
  have "\<not> cl_destroyed (cn_client x)" using assms(1) r(1) conn_slow(2) by (simp add: conn_inv_def)
  then have "client_inv ((cn_client x)\<lparr>cl_writeChan := ch\<rparr>)" using assms(1) r(4) by (simp add: conn_inv_def client_inv_def)
  from Destroy_inv [OF this conn_slow(4)] show ?thesis using assms(1) conn_slow(1,2) r by (simp add: conn_inv_def)
next
  case (conn_remove cs cs')
  then show ?thesis using assms(1) Stop_stops [OF conn_remove(4)] by (auto simp: conn_inv_def)
next
  case (conn_leave_remove cs cs')
  then show ?thesis using assms(1) Stop_stops [OF conn_leave_remove(4)] by (auto simp: conn_inv_def)
next
  case (conn_removed_run cs pick serverDone cs' ch)
  then show ?thesis using assms(1) run_ran(1) [OF conn_removed_run(3)] by (auto simp: conn_inv_def)
next
  case (conn_removed_slow cs pick serverDone cs' ch mt c mt')
  then show ?thesis using assms(1) run_ran(1) [OF conn_removed_slow(3)] by (auto simp: conn_inv_def)
next
  case (conn_write serverDone err)
  then show ?thesis using assms(1) client_inv_writer [of "cn_client x" serverDone err] by (simp add: conn_inv_def split: option.splits)
next
  case (conn_leave_destroy mt c mt')
  then show ?thesis using assms(1) Destroy_inv [OF _ conn_leave_destroy(3)] by (auto simp: conn_inv_def split: option.splits)
qed (use assms(1) in \<open>auto simp: conn_inv_def writeConn_def client_inv_def Push_def trySend_def split: option.splits if_splits\<close>)

interpretation connections: inductive_invariant conn_init "conn_step cfg" conn_inv for cfg
proof
  show "conn_inv x" if "conn_init x" for x
    using that NewClient_inv by (auto simp: conn_init_def conn_inv_def)
qed (rule conn_inv_step)

section \<open>Properties\<close>

lemma run_safeI:
  assumes "client_inv c" "cl_destroyed c \<longrightarrow> \<not> cs_running cs"
  shows "run_safe c cs"
  unfolding run_safe_def
proof (intro allI)
  fix pick serverDone
  show "case run pick serverDone cs (cl_writeChan c) of
      RunPanic \<Rightarrow> False | Ran cs' ch slow \<Rightarrow> \<forall>mt. Client_Destroy (c\<lparr>cl_writeChan := ch\<rparr>, mt) \<noteq> None | Blocked \<Rightarrow> True"
  proof (cases "run pick serverDone cs (cl_writeChan c)")
    case RunPanic
    then have "cs_running cs \<and> ch_closed (cl_writeChan c)"
      by (auto simp: run_def trySend_def split: if_splits run_pick.splits option.splits)
    then have False using assms by (auto simp: client_inv_def)
    then show ?thesis ..
  next
    case (Ran cs' ch slow)
    have "client_inv (c\<lparr>cl_writeChan := ch\<rparr>)" using assms run_ran [OF Ran] by (simp add: client_inv_def)
    then show ?thesis using Ran Destroy_returns by simp
  qed simp
qed

text \<open>
  C15. However the goroutines of a client interleave, none of them panics: no session sends on the write
  channel after it has been closed, not even one that was taken out of the map, and no channel is closed
  twice, whether the handler leaves first or the session destroys a client that is too slow. And when
  the handler is gone, nothing of the client is left: no session runs, the write channel is closed and
  empty, and the writer has returned.
\<close>

theorem client_teardown_safe:
  assumes "reach conn_init (conn_step cfg) x"
  shows "conn_safe x \<and>
    (cn_phase x = Gone \<longrightarrow> cn_session x = None \<and> list_all (\<lambda>cs. \<not> cs_running cs) (cn_removed x) \<and>
       cl_destroyed (cn_client x) \<and> \<not> cl_open (cn_client x) \<and> ch_closed (cl_writeChan (cn_client x)) \<and>
       ch_buf (cl_writeChan (cn_client x)) = [] \<and> \<not> cl_writing (cn_client x))"
proof
  have inv: "conn_inv x" using assms by (rule connections.reach_inv)
  then have c: "client_inv (cn_client x)" by (simp add: conn_inv_def)
  have "ClientSession_Stop cs \<noteq> None \<and> run_safe (cn_client x) cs" if "cn_session x = Some cs" for cs
    using inv that run_safeI [OF c, of cs] by (simp add: conn_inv_def ClientSession_Stop_def)
  moreover have "run_safe (cn_client x) cs" if "cs \<in> set (cn_removed x)" for cs
    using inv that run_safeI [OF c, of cs] by (simp add: conn_inv_def)
  ultimately show "conn_safe x" using Destroy_returns [OF c] unfolding conn_safe_def by blast
  show "cn_phase x = Gone \<longrightarrow> cn_session x = None \<and> list_all (\<lambda>cs. \<not> cs_running cs) (cn_removed x) \<and>
       cl_destroyed (cn_client x) \<and> \<not> cl_open (cn_client x) \<and> ch_closed (cl_writeChan (cn_client x)) \<and>
       ch_buf (cl_writeChan (cn_client x)) = [] \<and> \<not> cl_writing (cn_client x)"
    using inv by (auto simp: conn_inv_def client_inv_def list_all_iff split: option.splits)
qed

definition new_connection :: connection where
  "new_connection =
     \<lparr> cn_client = fst (the (NewClient ''10.0.0.1:554'' ''10.0.0.9:4000'' metrics_zero)), cn_session = None, cn_removed = [],
       cn_phase = AtRead \<rparr>"

lemma new_connection_init: "conn_init new_connection"
proof -
  have "\<not> Option.is_none (NewClient ''10.0.0.1:554'' ''10.0.0.9:4000'' metrics_zero)" by code_simp
  then obtain c mt where "NewClient ''10.0.0.1:554'' ''10.0.0.9:4000'' metrics_zero = Some (c, mt)" by (auto simp: Option.is_none_def)
  then show ?thesis by (auto simp: conn_init_def new_connection_def)
qed

text \<open>A client that adds itself to a stream and leaves.\<close>

theorem client_teardown_safe_witness:
  "\<exists>x. reach conn_init (conn_step DefaultConfig) x \<and> cn_phase x = Gone \<and> cn_removed x \<noteq> [] \<and>
     list_all (\<lambda>cs. \<not> cs_running cs) (cn_removed x) \<and> ch_closed (cl_writeChan (cn_client x))"
proof -
  let ?R = "reach conn_init (conn_step DefaultConfig)"
  let ?x = "new_connection"
  have 0: "?R ?x" using new_connection_init by (rule reach_init)
  have inv: "client_inv (cn_client ?x)" "\<not> cl_destroyed (cn_client ?x)"
    using new_connection_init NewClient_inv by (auto simp: conn_init_def)
  have "cl_open (cn_client ?x)" unfolding new_connection_def by code_simp
  then have 1: "?R (?x\<lparr>cn_phase := InRequest False\<rparr>)" by (intro reach_step [OF 0] conn_read) (simp_all add: new_connection_def)
  obtain cs where cs: "NewClientSession DefaultConfig 7 ''s'' = Some cs" by (simp add: NewClientSession_def DefaultConfig_def)
  have 2: "?R (?x\<lparr>cn_phase := InRequest False, cn_session := Some (ClientSession_Start cs)\<rparr>)"
    using reach_step [OF 1 conn_add [OF _ _ cs]] by (simp add: new_connection_def)
  have 3: "?R (?x\<lparr>cn_phase := AtRemove, cn_session := Some (ClientSession_Start cs)\<rparr>)"
    using reach_step [OF 2 conn_leave [of _ False]] by (simp add: new_connection_def)
  have "ClientSession_Stop (ClientSession_Start cs) \<noteq> None"
    using client_teardown_safe [OF 3] by (simp add: conn_safe_def)
  then obtain cs' where stop: "ClientSession_Stop (ClientSession_Start cs) = Some cs'" by blast
  have 4: "?R (?x\<lparr>cn_phase := AtDestroy, cn_removed := [cs']\<rparr>)"
    using reach_step [OF 3 conn_leave_remove [OF _ _ stop]] by (simp add: new_connection_def)
  obtain c mt where d: "Client_Destroy (cn_client ?x, metrics_zero) = Some (c, mt)" using Destroy_returns [OF inv(1), of metrics_zero] by auto
  have 5: "?R (?x\<lparr>cn_phase := Gone, cn_removed := [cs'], cn_client := c\<rparr>)"
    using reach_step [OF 4 conn_leave_destroy [of _ metrics_zero c mt]] d by (simp add: new_connection_def)
  from client_teardown_safe [OF 5] 5 show ?thesis by (intro exI [of _ "?x\<lparr>cn_phase := Gone, cn_removed := [cs'], cn_client := c\<rparr>"]) simp
qed

end
