(* ===== verification/Packet_Pool.thy ===== *)
theory Packet_Pool
  imports Rtsp_Fanout Rtsp_Client
begin

text \<open>
  The packets as slices of pooled buffers (\<open>packetPool\<close> of \<open>stream.go\<close>). The other theories treat a
  packet as a value; in the code it is a slice of a buffer that the fan-out takes from a pool, that
  travels through the queue of a client session and the write channel of the client, and that whoever
  ends its way puts back. Here the buffers are a store. The property: every buffer has at most one
  owner, so no packet changes on its way, and the code with the pool implements the operations on
  values (\<open>deliver\<close>, \<open>run\<close>, \<open>writer\<close>, \<open>Client_Destroy\<close>).
\<close>

section \<open>The pool\<close>

text \<open>
  The contents of the buffers, the buffers in the pool, and the number of buffers made so far. A slice is
  a buffer with a length.
\<close>

record pool =
  po_store :: "nat \<Rightarrow> string"
  po_free :: "nat list"
  po_next :: nat

type_synonym slice = "nat \<times> nat"

definition bytes :: "pool \<Rightarrow> slice \<Rightarrow> string" where
  "bytes p s = take (snd s) (po_store p (fst s))"

text \<open>
  \<open>Get\<close> gives one of the buffers in the pool, or a new one; which one is not specified. \<open>make\<close> panics on
  a negative size.
\<close>

definition packetPool_New :: "config \<Rightarrow> string option" where
  "packetPool_New cfg = (if BufferSize cfg < 0 then None else Some (replicate (nat (BufferSize cfg)) (CHR 0x00)))"

definition poolGet :: "config \<Rightarrow> nat option \<Rightarrow> pool \<Rightarrow> (nat \<times> pool) option" where
  "poolGet cfg pick p =
     (case pick of
        Some i \<Rightarrow>
          (if i < length (po_free p)
           then Some (po_free p ! i, p\<lparr>po_free := take i (po_free p) @ drop (Suc i) (po_free p)\<rparr>) else None)
      | None \<Rightarrow>
          (case packetPool_New cfg of
             None \<Rightarrow> None
           | Some buf \<Rightarrow> Some (po_next p, p\<lparr>po_store := (po_store p)(po_next p := buf), po_next := Suc (po_next p)\<rparr>)))"

definition poolPut :: "nat \<Rightarrow> pool \<Rightarrow> pool" where
  "poolPut b p = p\<lparr>po_free := b # po_free p\<rparr>"

text \<open>
  How the writers give a packet back: only a slice that begins with a dollar and has the capacity of a
  pooled buffer.
\<close>

definition recycle :: "config \<Rightarrow> slice \<Rightarrow> pool \<Rightarrow> pool" where
  "recycle cfg data p =
     (if 0 < length (bytes p data) \<and> hd (bytes p data) = CHR ''$'' \<and> int (length (po_store p (fst data))) = BufferSize cfg
      then poolPut (fst data) p else p)"

section \<open>The way of a packet\<close>

text \<open>
  A client with its session: the queue and the write channel carry slices, \<open>pc_out\<close> is the slice that the
  writer is writing, with the error that the write will have. The fields \<open>cs_queue\<close> and
  \<open>cl_writeChan\<close> of the two records are not used.
\<close>

record pooled_client =
  pc_session :: client_session
  pc_queue :: "slice chan"
  pc_client :: client
  pc_writeChan :: "slice chan"
  pc_out :: "(slice \<times> string option) option"

text \<open>
  One target of the fan-out: a buffer from the pool, the packet copied into it and the channel byte
  rewritten, and the slice pushed or the buffer put back. The flag says that the packet was dropped. A
  slice beyond the buffer, a packet without a channel byte and a closed queue panic: \<open>None\<close>.
\<close>

definition pooledDeliver :: "config \<Rightarrow> nat option \<Rightarrow> int \<Rightarrow> string \<Rightarrow> pool \<times> pooled_client \<Rightarrow> ((pool \<times> pooled_client) \<times> bool) option" where
  "pooledDeliver cfg pick channel packet w =
     (case w of (p, pc) \<Rightarrow>
        (case mget (cs_channels (pc_session pc)) channel of
           None \<Rightarrow> Some (w, False)
         | Some clientChannel \<Rightarrow>
             (case poolGet cfg pick p of
                None \<Rightarrow> None
              | Some (b, p) \<Rightarrow>
                  (if length (po_store p b) < length packet \<or> length packet < 2 then None
                   else
                     (let buf = packet @ drop (length packet) (po_store p b);
                          p = p\<lparr>po_store := (po_store p)(b := buf[1 := to_byte clientChannel])\<rparr>
                      in case trySend (b, length packet) (pc_queue pc) of
                           None \<Rightarrow> None
                         | Some (q, sent) \<Rightarrow>
                             Some (if sent then ((p, pc\<lparr>pc_queue := q\<rparr>), False) else ((poolPut b p, pc), True)))))))"

text \<open>The session's writer leaves: the queue is emptied into the pool.\<close>

definition pooledRunExit :: "config \<Rightarrow> pool \<times> pooled_client \<Rightarrow> pool \<times> pooled_client" where
  "pooledRunExit cfg w =
     (case w of (p, pc) \<Rightarrow>
        (fold (recycle cfg) (ch_buf (pc_queue pc)) p,
         pc\<lparr>pc_session := (pc_session pc)\<lparr>cs_running := False\<rparr>, pc_queue := (pc_queue pc)\<lparr>ch_buf := []\<rparr>\<rparr>))"

text \<open>One turn of the session's writer, as \<open>run\<close>; the result is \<open>None\<close> when the choice is not enabled or panics.\<close>

definition pooledRun :: "config \<Rightarrow> run_pick \<Rightarrow> bool \<Rightarrow> pool \<times> pooled_client \<Rightarrow> (pool \<times> pooled_client) option" where
  "pooledRun cfg pick serverDone w =
     (case w of (p, pc) \<Rightarrow>
        if \<not> cs_running (pc_session pc) then None
        else (case pick of
          PickQuit \<Rightarrow> if cs_quitClosed (pc_session pc) then Some (pooledRunExit cfg (p, pc)) else None
        | PickServerDone \<Rightarrow> if serverDone then Some (pooledRunExit cfg (p, pc)) else None
        | PickForward \<Rightarrow>
            (case tryRecv (pc_queue pc) of
               None \<Rightarrow> None
             | Some (packet, q) \<Rightarrow>
                 (case trySend packet (pc_writeChan pc) of
                    None \<Rightarrow> None
                  | Some (ch, sent) \<Rightarrow> if sent then Some (p, pc\<lparr>pc_queue := q, pc_writeChan := ch\<rparr>) else None))
        | PickSlow \<Rightarrow>
            (case tryRecv (pc_queue pc) of
               None \<Rightarrow> None
             | Some (packet, q) \<Rightarrow> Some (pooledRunExit cfg (recycle cfg packet p, pc\<lparr>pc_queue := q\<rparr>)))))"

text \<open>
  The writer of the client takes a slice, and later ends the write and gives the slice back. After an
  error and after the end of the context it only gives back what comes.
\<close>

definition pooledTake :: "config \<Rightarrow> bool \<Rightarrow> string option \<Rightarrow> pool \<times> pooled_client \<Rightarrow> (pool \<times> pooled_client) option" where
  "pooledTake cfg serverDone err w =
     (case w of (p, pc) \<Rightarrow>
        if pc_out pc \<noteq> None then None
        else if cl_writing (pc_client pc) \<and> serverDone then Some (p, pc\<lparr>pc_client := (pc_client pc)\<lparr>cl_writing := False\<rparr>\<rparr>)
        else (case tryRecv (pc_writeChan pc) of
                None \<Rightarrow> if ch_closed (pc_writeChan pc) then Some (p, pc\<lparr>pc_client := (pc_client pc)\<lparr>cl_writing := False\<rparr>\<rparr>) else Some w
              | Some (data, ch) \<Rightarrow>
                  (if cl_writing (pc_client pc) then Some (p, pc\<lparr>pc_writeChan := ch, pc_out := Some (data, err)\<rparr>)
                   else Some (recycle cfg data p, pc\<lparr>pc_writeChan := ch\<rparr>))))"

definition pooledWritten :: "config \<Rightarrow> pool \<times> pooled_client \<Rightarrow> (pool \<times> pooled_client) option" where
  "pooledWritten cfg w =
     (case w of (p, pc) \<Rightarrow>
        (case pc_out pc of
           None \<Rightarrow> None
         | Some (data, err) \<Rightarrow>
             Some (recycle cfg data p,
                   (case err of
                      None \<Rightarrow> pc\<lparr>pc_out := None, pc_client := (pc_client pc)\<lparr>cl_wire := cl_wire (pc_client pc) @ [bytes p data]\<rparr>\<rparr>
                    | Some _ \<Rightarrow> pc\<lparr>pc_out := None, pc_client := (pc_client pc)\<lparr>cl_writing := False\<rparr>\<rparr>))))"

text \<open>\<open>Destroy\<close> of the client: once; it ends when the writer has given back what is in the channel.\<close>

definition pooledDestroy :: "config \<Rightarrow> pool \<times> pooled_client \<Rightarrow> (pool \<times> pooled_client) option" where
  "pooledDestroy cfg w =
     (case w of (p, pc) \<Rightarrow>
        if pc_out pc \<noteq> None then None
        else if cl_destroyed (pc_client pc) then Some (p, pc)
        else (case closeChan (pc_writeChan pc) of
                None \<Rightarrow> None
              | Some ch \<Rightarrow>
                  Some (fold (recycle cfg) (ch_buf ch) p,
                        pc\<lparr>pc_writeChan := ch\<lparr>ch_buf := []\<rparr>,
                           pc_client := (pc_client pc)\<lparr>cl_destroyed := True, cl_open := False, cl_writing := False\<rparr>\<rparr>)))"

text \<open>A client that has just attached.\<close>

definition pooledNew :: "client_session \<Rightarrow> client \<Rightarrow> pooled_client" where
  "pooledNew cs c =
     \<lparr> pc_session = cs, pc_queue = make_chan (ch_cap (cs_queue cs)), pc_client = c,
       pc_writeChan = make_chan (ch_cap (cl_writeChan c)), pc_out = None \<rparr>"

text \<open>
  The whole system: the operations of the goroutines of any number of clients, and of the run-time system,
  which may drop buffers from the pool. Clients attach with the empty channels that \<open>NewClientSession\<close>
  and \<open>NewClient\<close> make; the stream changes the channel map of a session, and starts and stops it. The
  responses, which the handler writes to the connection itself, are no packets and have no part here.
\<close>

type_synonym pooled = "pool \<times> pooled_client list"

definition onClient :: "nat \<Rightarrow> (pool \<times> pooled_client \<Rightarrow> (pool \<times> pooled_client) option) \<Rightarrow> pooled \<Rightarrow> pooled option" where
  "onClient k f x =
     (case x of (p, pcs) \<Rightarrow>
        if k < length pcs then map_option (\<lambda>(p, pc). (p, pcs[k := pc])) (f (p, pcs ! k)) else None)"

definition attachable :: "client_session \<Rightarrow> client \<Rightarrow> bool" where
  "attachable cs c =
     (ch_buf (cs_queue cs) = [] \<and> \<not> ch_closed (cs_queue cs) \<and>
      ch_buf (cl_writeChan c) = [] \<and> \<not> ch_closed (cl_writeChan c))"

definition setFields :: "(int, int) gomap \<Rightarrow> bool \<Rightarrow> bool \<Rightarrow> client_session \<Rightarrow> client_session" where
  "setFields channels active quitClosed cs = cs\<lparr>cs_channels := channels, cs_active := active, cs_quitClosed := quitClosed\<rparr>"

inductive pool_step :: "config \<Rightarrow> pooled \<Rightarrow> pooled \<Rightarrow> bool" for cfg where
  step_deliver: "onClient k (\<lambda>w. map_option fst (pooledDeliver cfg pick channel packet w)) x = Some y \<Longrightarrow> pool_step cfg x y"
| step_run: "onClient k (pooledRun cfg pick serverDone) x = Some y \<Longrightarrow> pool_step cfg x y"
| step_take: "onClient k (pooledTake cfg serverDone err) x = Some y \<Longrightarrow> pool_step cfg x y"
| step_written: "onClient k (pooledWritten cfg) x = Some y \<Longrightarrow> pool_step cfg x y"
| step_destroy: "onClient k (pooledDestroy cfg) x = Some y \<Longrightarrow> pool_step cfg x y"
| step_fields: "onClient k (\<lambda>(p, pc). Some (p, pc\<lparr>pc_session := setFields channels active quitClosed (pc_session pc)\<rparr>)) x = Some y \<Longrightarrow>
    pool_step cfg x y"
| step_attach: "attachable cs c \<Longrightarrow> pool_step cfg (p, pcs) (p, pcs @ [pooledNew cs c])"
| step_gc: "pool_step cfg (p, pcs) (p\<lparr>po_free := take i (po_free p) @ drop (Suc i) (po_free p)\<rparr>, pcs)"


definition pool_init :: "pooled \<Rightarrow> bool" where
  "pool_init x = (po_free (fst x) = [] \<and> po_next (fst x) = 0 \<and> snd x = [])"

section \<open>The same on values\<close>

text \<open>The clients with packets as values, and the operations of the other theories on them.\<close>

type_synonym valued = "(client_session \<times> client) list"

inductive value_step :: "valued \<Rightarrow> valued \<Rightarrow> bool" where
  value_deliver: "k < length xs \<Longrightarrow> xs ! k = (cs, c) \<Longrightarrow> value_step xs (xs[k := (fst (deliver channel packet cs), c)])"
| value_run: "k < length xs \<Longrightarrow> xs ! k = (cs, c) \<Longrightarrow> run pick serverDone cs (cl_writeChan c) = Ran cs' ch slow \<Longrightarrow>
    value_step xs (xs[k := (cs', c\<lparr>cl_writeChan := ch\<rparr>)])"
| value_writer: "k < length xs \<Longrightarrow> xs ! k = (cs, c) \<Longrightarrow> value_step xs (xs[k := (cs, writer serverDone err c)])"
| value_destroy: "k < length xs \<Longrightarrow> xs ! k = (cs, c) \<Longrightarrow> Client_Destroy (c, mt) = Some (c', mt') \<Longrightarrow>
    value_step xs (xs[k := (cs, c')])"
| value_fields: "k < length xs \<Longrightarrow> xs ! k = (cs, c) \<Longrightarrow> value_step xs (xs[k := (setFields channels active quitClosed cs, c)])"
| value_attach: "attachable cs c \<Longrightarrow> value_step xs (xs @ [(cs, c)])"

text \<open>
  The values that a state with a pool stands for: the slices are read from the store, and a slice that is
  being written counts as written when the write succeeds.
\<close>

definition absChan :: "pool \<Rightarrow> slice chan \<Rightarrow> string chan" where
  "absChan p ch = \<lparr> ch_buf = map (bytes p) (ch_buf ch), ch_cap = ch_cap ch, ch_closed = ch_closed ch \<rparr>"

definition absSession :: "pool \<Rightarrow> pooled_client \<Rightarrow> client_session" where
  "absSession p pc = (pc_session pc)\<lparr>cs_queue := absChan p (pc_queue pc)\<rparr>"

fun absOut :: "pool \<Rightarrow> (slice \<times> string option) option \<Rightarrow> client \<Rightarrow> client" where
  "absOut p None c = c"
| "absOut p (Some (data, None)) c = c\<lparr>cl_wire := cl_wire c @ [bytes p data]\<rparr>"
| "absOut p (Some (data, Some err)) c = c\<lparr>cl_writing := False\<rparr>"

definition absClient :: "pool \<Rightarrow> pooled_client \<Rightarrow> client" where
  "absClient p pc = absOut p (pc_out pc) ((pc_client pc)\<lparr>cl_writeChan := absChan p (pc_writeChan pc)\<rparr>)"

definition absPooled :: "pooled \<Rightarrow> valued" where
  "absPooled x = (case x of (p, pcs) \<Rightarrow> map (\<lambda>pc. (absSession p pc, absClient p pc)) pcs)"

section \<open>Owners\<close>

definition owned :: "pooled_client \<Rightarrow> nat list" where
  "owned pc = map fst (ch_buf (pc_queue pc)) @ map fst (ch_buf (pc_writeChan pc)) @
     (case pc_out pc of None \<Rightarrow> [] | Some (data, err) \<Rightarrow> [fst data])"

text \<open>How often a buffer is in the pool or on its way.\<close>

definition owners :: "pooled \<Rightarrow> nat \<Rightarrow> nat" where
  "owners x b = count_list (po_free (fst x)) b + sum_list (map (\<lambda>pc. count_list (owned pc) b) (snd x))"

definition pool_inv :: "config \<Rightarrow> pooled \<Rightarrow> bool" where
  "pool_inv cfg x =
     ((\<forall>b. owners x b \<le> (if b < po_next (fst x) then 1 else 0)) \<and>
      (\<forall>b < po_next (fst x). int (length (po_store (fst x) b)) = BufferSize cfg) \<and>
      list_all (\<lambda>pc. \<not> ch_closed (pc_queue pc)) (snd x))"

text \<open>The same for one client, where \<open>n\<close> counts the places of a buffer with the others.\<close>

definition local_inv :: "config \<Rightarrow> (nat \<Rightarrow> nat) \<Rightarrow> pool \<times> pooled_client \<Rightarrow> bool" where
  "local_inv cfg n w =
     (case w of (p, pc) \<Rightarrow>
        (\<forall>b. count_list (po_free p) b + count_list (owned pc) b + n b \<le> (if b < po_next p then 1 else 0)) \<and>
        (\<forall>b < po_next p. int (length (po_store p b)) = BufferSize cfg) \<and> \<not> ch_closed (pc_queue pc))"

text \<open>What an operation of one client may do.\<close>

definition local_ok :: "config \<Rightarrow> (nat \<Rightarrow> nat) \<Rightarrow> pool \<times> pooled_client \<Rightarrow> pool \<times> pooled_client \<Rightarrow> bool" where
  "local_ok cfg n w w' = (local_inv cfg n w' \<and> (\<forall>b. 0 < n b \<longrightarrow> po_store (fst w') b = po_store (fst w) b))"

lemma recycle_store [simp]: "po_store (recycle cfg s p) = po_store p" "po_next (recycle cfg s p) = po_next p"
  by (simp_all add: recycle_def poolPut_def)

lemma recycles_store [simp]: "po_store (fold (recycle cfg) ss p) = po_store p" "po_next (fold (recycle cfg) ss p) = po_next p"
  by (induction ss arbitrary: p) auto

lemma recycle_free: "count_list (po_free (recycle cfg s p)) b \<le> count_list (po_free p) b + (if fst s = b then 1 else 0)"
  by (simp add: recycle_def poolPut_def)

lemma recycle_count [simp]:
  "count_list (po_free (recycle cfg s p)) b \<le> Suc (count_list (po_free p) b)"
  "fst s \<noteq> b \<Longrightarrow> count_list (po_free (recycle cfg s p)) b = count_list (po_free p) b"
  by (simp_all add: recycle_def poolPut_def)

lemma recycles_free: "count_list (po_free (fold (recycle cfg) ss p)) b \<le> count_list (po_free p) b + count_list (map fst ss) b"
proof (induction ss arbitrary: p)
  case (Cons s ss)
  show ?case using Cons.IH [of "recycle cfg s p"] recycle_free [of cfg s p b] by (simp del: recycle_count split: if_splits)
qed simp

text \<open>An operation that leaves the store alone and only moves buffers keeps the invariant.\<close>

lemma local_ok_moves:
  assumes "local_inv cfg n (p, pc)" "po_store p' = po_store p" "po_next p' = po_next p" "ch_closed (pc_queue pc') = ch_closed (pc_queue pc)"
    and "\<And>b. count_list (po_free p') b + count_list (owned pc') b \<le> count_list (po_free p) b + count_list (owned pc) b"
  shows "local_ok cfg n (p, pc) (p', pc')"
proof -
  have "count_list (po_free p') b + count_list (owned pc') b + n b \<le> (if b < po_next p then 1 else 0)" for b
    using assms(1,5) unfolding local_inv_def prod.case by (meson add_le_mono1 le_trans)
  then show ?thesis using assms(1-4) by (simp add: local_ok_def local_inv_def)
qed

lemma count_list_append_eq [simp]: "count_list (xs @ ys) x = count_list xs x + count_list ys x"
  by (induction xs) auto

lemma RunExit_ok: "local_inv cfg n w \<Longrightarrow> local_ok cfg n w (pooledRunExit cfg w)"
  unfolding pooledRunExit_def by (cases w) (auto intro!: local_ok_moves simp: owned_def recycles_free [THEN le_trans])


lemma Run_ok:
  assumes "local_inv cfg n (p, pc)" "pooledRun cfg pick serverDone (p, pc) = Some w"
  shows "local_ok cfg n (p, pc) w"
proof (cases pick)
  case PickForward
  then obtain packet q ch where q: "tryRecv (pc_queue pc) = Some (packet, q)" "trySend packet (pc_writeChan pc) = Some (ch, True)"
      "w = (p, pc\<lparr>pc_queue := q, pc_writeChan := ch\<rparr>)"
    using assms(2) by (auto simp: pooledRun_def split: if_splits option.splits)
  have "ch_buf (pc_queue pc) = packet # ch_buf q" "ch_closed q = ch_closed (pc_queue pc)" "ch_buf ch = ch_buf (pc_writeChan pc) @ [packet]"
    using q(1,2) by (auto simp: tryRecv_def trySend_def split: list.splits if_splits)
  then show ?thesis unfolding q(3) by (intro local_ok_moves [OF assms(1)]) (simp_all add: owned_def)
next
  case PickSlow
  then obtain packet q where q: "tryRecv (pc_queue pc) = Some (packet, q)"
      "w = pooledRunExit cfg (recycle cfg packet p, pc\<lparr>pc_queue := q\<rparr>)"
    using assms(2) by (auto simp: pooledRun_def split: if_splits option.splits)
  have b: "ch_buf (pc_queue pc) = packet # ch_buf q" "ch_closed q = ch_closed (pc_queue pc)"
    using q(1) by (auto simp: tryRecv_def split: list.splits)
  have "local_ok cfg n (p, pc) (recycle cfg packet p, pc\<lparr>pc_queue := q\<rparr>)"
    using b by (intro local_ok_moves [OF assms(1)]) (simp_all add: owned_def)
  with RunExit_ok [of cfg n "(recycle cfg packet p, pc\<lparr>pc_queue := q\<rparr>)"] show ?thesis
    unfolding q(2) by (auto simp: local_ok_def pooledRunExit_def)
qed (use assms RunExit_ok in \<open>auto simp: pooledRun_def split: if_splits\<close>)

lemma Take_ok:
  assumes "local_inv cfg n (p, pc)" "pooledTake cfg serverDone err (p, pc) = Some w"
  shows "local_ok cfg n (p, pc) w"
proof (cases "pc_out pc = None \<and> \<not> (cl_writing (pc_client pc) \<and> serverDone) \<and> tryRecv (pc_writeChan pc) \<noteq> None")
  case True
  then obtain data ch where d: "tryRecv (pc_writeChan pc) = Some (data, ch)" by auto
  have b: "ch_buf (pc_writeChan pc) = data # ch_buf ch" using d by (auto simp: tryRecv_def split: list.splits)
  show ?thesis
  proof (cases "cl_writing (pc_client pc)")
    case writing: True
    then have "w = (p, pc\<lparr>pc_writeChan := ch, pc_out := Some (data, err)\<rparr>)" using assms(2) True d by (auto simp: pooledTake_def)
    then show ?thesis using True b by (simp only:) (intro local_ok_moves [OF assms(1)]; simp add: owned_def)
  next
    case False
    then have "w = (recycle cfg data p, pc\<lparr>pc_writeChan := ch\<rparr>)" using assms(2) True d by (auto simp: pooledTake_def)
    then show ?thesis using b by (simp only:) (intro local_ok_moves [OF assms(1)]; simp add: owned_def)
  qed
next
  case False
  then have "fst w = p" "owned (snd w) = owned pc" "pc_queue (snd w) = pc_queue pc"
    using assms(2) by (auto simp: pooledTake_def owned_def split: if_splits option.splits)
  then show ?thesis by (cases w) (auto intro!: local_ok_moves [OF assms(1)])
qed

lemma Written_ok:
  assumes "local_inv cfg n (p, pc)" "pooledWritten cfg (p, pc) = Some w"
  shows "local_ok cfg n (p, pc) w"
proof -
  obtain data err pc' where d: "pc_out pc = Some (data, err)" "w = (recycle cfg data p, pc')" "pc_queue pc' = pc_queue pc"
      "pc_writeChan pc' = pc_writeChan pc" "pc_out pc' = None"
    using assms(2) by (auto simp: pooledWritten_def split: option.splits)
  show ?thesis unfolding d(2) using d by (intro local_ok_moves [OF assms(1)]) (simp_all add: owned_def)
qed

lemma Destroy_ok:
  assumes "local_inv cfg n (p, pc)" "pooledDestroy cfg (p, pc) = Some w"
  shows "local_ok cfg n (p, pc) w"
proof (cases "cl_destroyed (pc_client pc)")
  case True
  then have "w = (p, pc)" using assms(2) by (auto simp: pooledDestroy_def split: if_splits)
  with assms(1) show ?thesis by (simp add: local_ok_def)
next
  case False
  then have d: "fst w = fold (recycle cfg) (ch_buf (pc_writeChan pc)) p"
      "pc_queue (snd w) = pc_queue pc" "ch_buf (pc_writeChan (snd w)) = []" "pc_out (snd w) = pc_out pc"
    using assms(2) by (auto simp: pooledDestroy_def closeChan_def split: if_splits)
  have "local_ok cfg n (p, pc) (fst w, snd w)"
    unfolding d(1) using d recycles_free [of cfg "ch_buf (pc_writeChan pc)" p] by (intro local_ok_moves [OF assms(1)]) (simp_all add: owned_def)
  then show ?thesis by simp
qed

text \<open>A buffer from the pool belongs to nobody else.\<close>

lemma poolGet_owner:
  assumes "local_inv cfg n (p, pc)" "poolGet cfg pick p = Some (b, p')"
  shows "count_list (po_free p') x + (if x = b then 1 else 0) + count_list (owned pc) x + n x \<le> (if x < po_next p' then 1 else 0)"
    and "x \<noteq> b \<Longrightarrow> po_store p' x = po_store p x" and "x < po_next p' \<Longrightarrow> int (length (po_store p' x)) = BufferSize cfg"
proof -
  note inv = assms(1) [unfolded local_inv_def prod.case]
  consider (old) i where "pick = Some i" "i < length (po_free p)" "b = po_free p ! i"
      "p' = p\<lparr>po_free := take i (po_free p) @ drop (Suc i) (po_free p)\<rparr>"
    | (new) "pick = None" "b = po_next p"
        "p' = p\<lparr>po_store := (po_store p)(po_next p := replicate (nat (BufferSize cfg)) (CHR 0x00)), po_next := Suc (po_next p)\<rparr>" "0 \<le> BufferSize cfg"
    using assms(2) by (auto simp: poolGet_def packetPool_New_def split: option.splits if_splits)
  then have "count_list (po_free p') x + (if x = b then 1 else 0) + count_list (owned pc) x + n x \<le> (if x < po_next p' then 1 else 0) \<and>
      (x \<noteq> b \<longrightarrow> po_store p' x = po_store p x) \<and> (x < po_next p' \<longrightarrow> int (length (po_store p' x)) = BufferSize cfg)"
  proof cases
    case old
    have "count_list (po_free p) x = count_list (take i (po_free p) @ po_free p ! i # drop (Suc i) (po_free p)) x"
      by (rule arg_cong [OF id_take_nth_drop [OF old(2)]])
    then have c: "count_list (po_free p) x = count_list (po_free p') x + (if x = b then 1 else 0)" using old(3,4) by simp
    have "count_list (po_free p) x + count_list (owned pc) x + n x \<le> (if x < po_next p then 1 else 0)" using inv by blast
    moreover have "po_next p' = po_next p" "po_store p' = po_store p" using old(4) by simp_all
    ultimately show ?thesis using inv unfolding c by simp
  next
    case new
    have "count_list (po_free p) x + count_list (owned pc) x + n x \<le> (if x < po_next p then 1 else 0)" using inv by blast
    moreover have "\<forall>b < po_next p. int (length (po_store p b)) = BufferSize cfg" using inv by blast
    ultimately show ?thesis using new by (auto simp: less_Suc_eq split: if_splits)
  qed
  then show "count_list (po_free p') x + (if x = b then 1 else 0) + count_list (owned pc) x + n x \<le> (if x < po_next p' then 1 else 0)"
    "x \<noteq> b \<Longrightarrow> po_store p' x = po_store p x" "x < po_next p' \<Longrightarrow> int (length (po_store p' x)) = BufferSize cfg" by blast+
qed

lemma pooledDeliver_cases:
  assumes "pooledDeliver cfg pick channel packet (p, pc) = Some (w, dropped)"
  obtains (other) "mget (cs_channels (pc_session pc)) channel = None" "w = (p, pc)" "\<not> dropped"
  | (copied) ch b p1 p2 q where "mget (cs_channels (pc_session pc)) channel = Some ch" "poolGet cfg pick p = Some (b, p1)"
      "2 \<le> length packet" "length packet \<le> length (po_store p1 b)"
      "p2 = p1\<lparr>po_store := (po_store p1)(b := clientPacket ch packet @ drop (length packet) (po_store p1 b))\<rparr>"
      "trySend (b, length packet) (pc_queue pc) = Some (q, \<not> dropped)"
      "w = (if dropped then (poolPut b p2, pc) else (p2, pc\<lparr>pc_queue := q\<rparr>))"
proof (cases "mget (cs_channels (pc_session pc)) channel")
  case None
  then show ?thesis using assms other by (simp add: pooledDeliver_def)
next
  case (Some ch)
  then obtain b p1 where g: "poolGet cfg pick p = Some (b, p1)" "\<not> length (po_store p1 b) < length packet" "\<not> length packet < 2"
    using assms by (auto simp: pooledDeliver_def split: option.splits if_splits)
  let ?buf = "packet @ drop (length packet) (po_store p1 b)"
  let ?p2 = "p1\<lparr>po_store := (po_store p1)(b := clientPacket ch packet @ drop (length packet) (po_store p1 b))\<rparr>"
  have buf: "?buf[Suc 0 := to_byte ch] = clientPacket ch packet @ drop (length packet) (po_store p1 b)"
    using g(3) by (simp add: clientPacket_def list_update_append)
  have "trySend (b, length packet) (pc_queue pc) \<noteq> None" using assms Some g by (intro notI) (simp add: pooledDeliver_def Let_def)
  then obtain q sent where t: "trySend (b, length packet) (pc_queue pc) = Some (q, sent)" by auto
  have w: "(w, dropped) = (if sent then ((?p2, pc\<lparr>pc_queue := q\<rparr>), False) else ((poolPut b ?p2, pc), True))"
    using assms Some g t buf by (cases sent) (simp_all add: pooledDeliver_def Let_def)
  then have "trySend (b, length packet) (pc_queue pc) = Some (q, \<not> dropped)" using t by (cases sent) simp_all
  note c = copied [OF Some g(1) _ _ refl this]
  show ?thesis by (rule c) (use g(2,3) w in \<open>cases sent; simp\<close>)+
qed

lemma Deliver_ok:
  assumes "local_inv cfg n (p, pc)" "pooledDeliver cfg pick channel packet (p, pc) = Some (w, dropped)"
  shows "local_ok cfg n (p, pc) w"
  using assms(2)
proof (cases rule: pooledDeliver_cases)
  case other
  with assms(1) show ?thesis by (simp add: local_ok_def)
next
  case (copied ch b p1 p2 q)
  note g = poolGet_owner [OF assms(1) copied(2)]
  have len: "int (length (po_store p2 x)) = BufferSize cfg" if "x < po_next p2" for x
    using g(3) [of x] that copied(3,4,5) by (auto simp: clientPacket_def)
  have store: "po_store p2 x = po_store p x" if "0 < n x" for x
    using g(1) [of x] g(2) [of x] that copied(5) by (auto split: if_splits)
  have q: "ch_closed q = ch_closed (pc_queue pc)" "ch_buf q = ch_buf (pc_queue pc) @ (if dropped then [] else [(b, length packet)])"
    using copied(6) by (auto simp: trySend_def split: if_splits)
  have c: "count_list (po_free p2) x + (if x = b then 1 else 0) + count_list (owned pc) x + n x \<le> (if x < po_next p2 then 1 else 0)" for x
    using g(1) [of x] copied(5) by simp
  show ?thesis
  proof (cases dropped)
    case True
    have "count_list (po_free (poolPut b p2)) x + count_list (owned pc) x + n x \<le> (if x < po_next p2 then 1 else 0)" for x
      using c [of x] by (simp add: poolPut_def split: if_splits)
    then have "local_inv cfg n (poolPut b p2, pc)" using len assms(1) by (simp add: local_inv_def poolPut_def)
    moreover have "w = (poolPut b p2, pc)" using copied(7) True by simp
    ultimately show ?thesis using store unfolding local_ok_def by (simp add: poolPut_def)
  next
    case False
    have "count_list (po_free p2) x + count_list (owned (pc\<lparr>pc_queue := q\<rparr>)) x + n x \<le> (if x < po_next p2 then 1 else 0)" for x
      using c [of x] q(2) False by (simp add: owned_def split: if_splits)
    then have "local_inv cfg n (p2, pc\<lparr>pc_queue := q\<rparr>)" using len q(1) assms(1) by (simp add: local_inv_def)
    moreover have "w = (p2, pc\<lparr>pc_queue := q\<rparr>)" using copied(7) False by simp
    ultimately show ?thesis using store unfolding local_ok_def by simp
  qed
qed

section \<open>The operations on values\<close>

lemma absChan_cong: "(\<And>s. s \<in> set (ch_buf ch) \<Longrightarrow> po_store p' (fst s) = po_store p (fst s)) \<Longrightarrow> absChan p' ch = absChan p ch"
  by (simp add: absChan_def bytes_def)

text \<open>A client whose buffers nobody touches stands for the same values.\<close>

lemma abs_cong:
  assumes "\<And>b. b \<in> set (owned pc) \<Longrightarrow> po_store p' b = po_store p b"
  shows "absSession p' pc = absSession p pc" "absClient p' pc = absClient p pc"
proof -
  have "po_store p' (fst s) = po_store p (fst s)" if "s \<in> set (ch_buf (pc_queue pc)) \<union> set (ch_buf (pc_writeChan pc))" for s
    by (rule assms) (use that in \<open>auto simp: owned_def\<close>)
  then have "absChan p' (pc_queue pc) = absChan p (pc_queue pc)" "absChan p' (pc_writeChan pc) = absChan p (pc_writeChan pc)"
    by (auto intro!: absChan_cong)
  moreover have "absOut p' (pc_out pc) c = absOut p (pc_out pc) c" for c
    using assms by (cases "(p, pc_out pc, c)" rule: absOut.cases) (auto simp: owned_def bytes_def)
  ultimately show "absSession p' pc = absSession p pc" "absClient p' pc = absClient p pc"
    by (simp_all only: absSession_def absClient_def)
qed

lemma absChan_simps [simp]:
  "ch_cap (absChan p ch) = ch_cap ch" "ch_closed (absChan p ch) = ch_closed ch" "ch_buf (absChan p ch) = map (bytes p) (ch_buf ch)"
  "absChan p (ch\<lparr>ch_buf := b\<rparr>) = (absChan p ch)\<lparr>ch_buf := map (bytes p) b\<rparr>"
  "absChan p (ch\<lparr>ch_closed := c\<rparr>) = (absChan p ch)\<lparr>ch_closed := c\<rparr>"
  by (simp_all add: absChan_def)

lemma absChan_store: "po_store p' = po_store p \<Longrightarrow> absChan p' ch = absChan p ch"
  by (rule absChan_cong) simp

lemma abs_recycle [simp]:
  "bytes (recycle cfg s p) = bytes p" "absChan (recycle cfg s p) = absChan p" "absChan (fold (recycle cfg) ss p) = absChan p"
  by (intro ext, simp add: bytes_def absChan_def)+

lemma absChan_trySend: "trySend (bytes p s) (absChan p ch) = map_option (\<lambda>(ch, sent). (absChan p ch, sent)) (trySend s ch)"
  by (auto simp: trySend_def)

lemma absChan_tryRecv: "tryRecv (absChan p ch) = map_option (\<lambda>(s, ch). (bytes p s, absChan p ch)) (tryRecv ch)"
  by (auto simp: tryRecv_def split: list.split)

lemma abs_RunExit: "pooledRunExit cfg (p, pc) = (p', pc') \<Longrightarrow> absSession p' pc' = runExit (absSession p pc) \<and> absClient p' pc' = absClient p pc"
proof -
  assume "pooledRunExit cfg (p, pc) = (p', pc')"
  then have d: "p' = fold (recycle cfg) (ch_buf (pc_queue pc)) p"
      "pc' = pc\<lparr>pc_session := (pc_session pc)\<lparr>cs_running := False\<rparr>, pc_queue := (pc_queue pc)\<lparr>ch_buf := []\<rparr>\<rparr>"
    by (simp_all add: pooledRunExit_def)
  have st: "po_store p' = po_store p" by (simp add: d(1))
  have "absClient p' pc = absClient p pc" by (rule abs_cong) (simp add: st)
  then show ?thesis by (simp add: d(2) absSession_def absClient_def runExit_def absChan_store [OF st])
qed

lemma abs_Deliver:
  assumes "local_inv cfg n (p, pc)" "pooledDeliver cfg pick channel packet (p, pc) = Some ((p', pc'), dropped)"
  shows "deliver channel packet (absSession p pc) = (absSession p' pc', dropped) \<and> absClient p' pc' = absClient p pc"
  using assms(2)
proof (cases rule: pooledDeliver_cases)
  case other
  then show ?thesis by (simp add: deliver_def absSession_def)
next
  case (copied ch b p1 p2 q)
  have b: "po_store p2 x = po_store p x" if "x \<in> set (owned pc)" for x
  proof -
    have "0 < count_list (owned pc) x" using that by (metis count_list_0_iff gr0I)
    then have "x \<noteq> b" using poolGet_owner(1) [OF assms(1) copied(2), of x] by (auto split: if_splits)
    then show ?thesis using poolGet_owner(2) [OF assms(1) copied(2)] copied(5) by simp
  qed
  note same = abs_cong [of pc p2 p, OF b]
  have "bytes p2 (b, length packet) = clientPacket ch packet" by (simp add: bytes_def copied(5) clientPacket_def)
  then have send: "trySend (clientPacket ch packet) (cs_queue (absSession p pc)) = Some (absChan p2 q, \<not> dropped)"
    using absChan_trySend [of p2 "(b, length packet)" "pc_queue pc"] copied(6) arg_cong [OF same(1), of cs_queue] by (simp add: absSession_def)
  have d: "deliver channel packet (absSession p pc) = ((absSession p pc)\<lparr>cs_queue := absChan p2 q\<rparr>, dropped)"
    using copied(1) send by (simp add: deliver_def Push_def absSession_def)
  show ?thesis
  proof (cases dropped)
    case True
    have w: "p' = poolPut b p2" "pc' = pc" using copied(7) True by simp_all
    have st: "po_store p' x = po_store p x" if "x \<in> set (owned pc)" for x using b [OF that] by (simp add: w poolPut_def)
    have "q = pc_queue pc" using copied(6) True by (auto simp: trySend_def split: if_splits)
    then have "absChan p2 q = cs_queue (absSession p pc)" using arg_cong [OF same(1), of cs_queue] by (simp add: absSession_def)
    then have "deliver channel packet (absSession p pc) = (absSession p pc, dropped)" unfolding d by simp
    moreover have "absSession p' pc = absSession p pc" "absClient p' pc = absClient p pc" by (rule abs_cong, rule st, assumption)+
    ultimately show ?thesis by (simp only: w(2))
  next
    case False
    have w: "p' = p2" "pc' = pc\<lparr>pc_queue := q\<rparr>" using copied(7) False by simp_all
    have "absClient p2 (pc\<lparr>pc_queue := q\<rparr>) = absClient p2 pc" by (simp add: absClient_def)
    moreover have "(absSession p pc)\<lparr>cs_queue := absChan p2 q\<rparr> = absSession p2 (pc\<lparr>pc_queue := q\<rparr>)" by (simp add: absSession_def)
    ultimately show ?thesis unfolding d w by (simp only: same)
  qed
qed

lemma absClient_chan [simp]: "cl_writeChan (absClient p pc) = absChan p (pc_writeChan pc)"
  by (cases "(p, pc_out pc, pc_client pc)" rule: absOut.cases) (auto simp: absClient_def)

lemma absClient_update: "absClient p (pc\<lparr>pc_queue := q, pc_writeChan := ch\<rparr>) = (absClient p pc)\<lparr>cl_writeChan := absChan p ch\<rparr>"
  by (cases "(p, pc_out pc, pc_client pc)" rule: absOut.cases) (auto simp: absClient_def)

lemma abs_Run:
  assumes "pooledRun cfg pick serverDone (p, pc) = Some (p', pc')"
  shows "\<exists>ch slow. run pick serverDone (absSession p pc) (absChan p (pc_writeChan pc)) = Ran (absSession p' pc') ch slow \<and>
    absClient p' pc' = (absClient p pc)\<lparr>cl_writeChan := ch\<rparr>"
proof -
  have running: "cs_running (pc_session pc)" using assms by (simp add: pooledRun_def split: if_splits)
  have chan: "(absClient p pc)\<lparr>cl_writeChan := absChan p (pc_writeChan pc)\<rparr> = absClient p pc"
    using absClient_chan [of p pc] by (metis client.surjective client.update_convs(9))
  show ?thesis
  proof (cases pick)
    case PickForward
    then obtain packet q ch where q: "tryRecv (pc_queue pc) = Some (packet, q)" "trySend packet (pc_writeChan pc) = Some (ch, True)"
        "p' = p" "pc' = pc\<lparr>pc_queue := q, pc_writeChan := ch\<rparr>"
      using assms by (auto simp: pooledRun_def split: if_splits option.splits)
    then show ?thesis using running PickForward
      by (intro exI [of _ "absChan p ch"] exI [of _ False])
        (simp add: run_def absSession_def absChan_tryRecv absChan_trySend absClient_update)
  next
    case PickSlow
    then obtain packet q where q: "tryRecv (pc_queue pc) = Some (packet, q)"
        "pooledRunExit cfg (recycle cfg packet p, pc\<lparr>pc_queue := q\<rparr>) = (p', pc')"
      using assms by (auto simp: pooledRun_def split: if_splits option.splits)
    have "absSession (recycle cfg packet p) (pc\<lparr>pc_queue := q\<rparr>) = (absSession p pc)\<lparr>cs_queue := absChan p q\<rparr>"
      using absChan_store [of "recycle cfg packet p" p q] by (simp add: absSession_def)
    moreover have "absClient (recycle cfg packet p) (pc\<lparr>pc_queue := q\<rparr>) = absClient p pc"
      using abs_cong(2) [of pc "recycle cfg packet p" p] by (simp add: absClient_def)
    ultimately show ?thesis using abs_RunExit [OF q(2)] running PickSlow q(1) chan
      by (intro exI [of _ "absChan p (pc_writeChan pc)"] exI [of _ True]) (simp add: run_def absSession_def [of p pc] absChan_tryRecv)
  qed (use assms running abs_RunExit [of cfg p pc p' pc'] chan in \<open>auto simp: pooledRun_def run_def absSession_def [of p pc] split: if_splits\<close>)
qed

lemma abs_Take:
  assumes "pooledTake cfg serverDone err (p, pc) = Some (p', pc')"
  shows "absSession p' pc' = absSession p pc \<and> absClient p' pc' = writer serverDone err (absClient p pc)"
proof -
  have out: "pc_out pc = None" using assms by (cases "pc_out pc = None") (simp_all add: pooledTake_def del: not_None_eq)
  have "po_store p' = po_store p" "pc_session pc' = pc_session pc" "pc_queue pc' = pc_queue pc"
    using assms by (auto simp: pooledTake_def split: if_splits option.splits)
  then have "absSession p' pc' = absSession p pc" using absChan_store [of p' p] by (simp add: absSession_def)
  moreover have "absClient p' pc' = writer serverDone err (absClient p pc)"
    using assms out
    by (cases err) (auto simp: pooledTake_def writer_def absClient_def absChan_tryRecv split: if_splits option.splits)
  ultimately show ?thesis by blast
qed

lemma abs_Written:
  assumes "pooledWritten cfg (p, pc) = Some (p', pc')"
  shows "absSession p' pc' = absSession p pc \<and> absClient p' pc' = absClient p pc"
proof -
  obtain data err where out: "pc_out pc = Some (data, err)" "p' = recycle cfg data p"
    using assms by (auto simp: pooledWritten_def split: option.splits)
  then show ?thesis using assms by (cases err) (auto simp: pooledWritten_def absSession_def absClient_def)
qed

lemma abs_Destroy:
  assumes "pooledDestroy cfg (p, pc) = Some (p', pc')"
  shows "absSession p' pc' = absSession p pc \<and> (\<exists>mt'. Client_Destroy (absClient p pc, metrics_zero) = Some (absClient p' pc', mt'))"
proof -
  have out: "pc_out pc = None" using assms by (cases "pc_out pc = None") (simp_all add: pooledDestroy_def del: not_None_eq)
  show ?thesis
  proof (cases "cl_destroyed (pc_client pc)")
    case True
    then show ?thesis using assms out by (auto simp: pooledDestroy_def Client_Destroy_def absClient_def)
  next
    case False
    then have "\<not> ch_closed (pc_writeChan pc)" "p' = fold (recycle cfg) (ch_buf (pc_writeChan pc)) p"
        "pc' = pc\<lparr>pc_writeChan := (pc_writeChan pc)\<lparr>ch_closed := True, ch_buf := []\<rparr>,
                  pc_client := (pc_client pc)\<lparr>cl_destroyed := True, cl_open := False, cl_writing := False\<rparr>\<rparr>"
      using assms out by (auto simp: pooledDestroy_def closeChan_def split: if_splits)
    then show ?thesis using False out by (simp add: Client_Destroy_def absClient_def absSession_def closeChan_def)
  qed
qed

section \<open>The whole system\<close>

definition others :: "nat \<Rightarrow> pooled_client list \<Rightarrow> nat \<Rightarrow> nat" where
  "others k pcs b = sum_list (map (\<lambda>pc. count_list (owned pc) b) (take k pcs @ drop (Suc k) pcs))"

lemma owners_update:
  "k < length pcs \<Longrightarrow> owners (p, pcs[k := pc]) b = count_list (po_free p) b + count_list (owned pc) b + others k pcs b"
  by (simp add: owners_def others_def upd_conv_take_nth_drop)

lemma others_pos:
  assumes "j < length pcs" "j \<noteq> k" "b \<in> set (owned (pcs ! j))"
  shows "0 < others k pcs b"
proof -
  have "pcs ! j \<in> set (take k pcs @ drop (Suc k) pcs)"
  proof (cases "j < k")
    case True
    then show ?thesis using assms(1) by (auto simp: in_set_conv_nth intro!: exI [of _ j])
  next
    case False
    then have "drop (Suc k) pcs ! (j - Suc k) = pcs ! j" "j - Suc k < length (drop (Suc k) pcs)" using assms(1,2) by auto
    then show ?thesis by (metis UnCI nth_mem set_append)
  qed
  moreover have "count_list (owned (pcs ! j)) b \<noteq> 0" using assms(3) by (simp add: count_list_0_iff)
  ultimately show ?thesis unfolding others_def by (metis (no_types, lifting) gr0I image_eqI list.set_map sum_list_eq_0_iff)
qed

lemma pool_local_inv:
  assumes "pool_inv cfg (p, pcs)" "k < length pcs"
  shows "local_inv cfg (others k pcs) (p, pcs ! k)"
  using assms owners_update [OF assms(2), of p "pcs ! k"] by (simp add: pool_inv_def local_inv_def list_all_length)

text \<open>What one client does leaves the others alone.\<close>

lemma local_ok_pool:
  assumes "pool_inv cfg (p, pcs)" "k < length pcs" "local_ok cfg (others k pcs) (p, pcs ! k) (p', pc')"
  shows "pool_inv cfg (p', pcs[k := pc'])"
    and "absPooled (p', pcs[k := pc']) = (absPooled (p, pcs))[k := (absSession p' pc', absClient p' pc')]"
proof -
  show "pool_inv cfg (p', pcs[k := pc'])"
    using assms owners_update [OF assms(2), of p' pc']
    by (auto simp: pool_inv_def local_ok_def local_inv_def list_all_length nth_list_update)
  have "absSession p' (pcs ! j) = absSession p (pcs ! j)" "absClient p' (pcs ! j) = absClient p (pcs ! j)" if j: "j < length pcs" "j \<noteq> k" for j
  proof -
    have "po_store p' b = po_store p b" if "b \<in> set (owned (pcs ! j))" for b
      using others_pos [OF j that] assms(3) by (simp add: local_ok_def)
    then show "absSession p' (pcs ! j) = absSession p (pcs ! j)" "absClient p' (pcs ! j) = absClient p (pcs ! j)" by (auto intro!: abs_cong)
  qed
  then show "absPooled (p', pcs[k := pc']) = (absPooled (p, pcs))[k := (absSession p' pc', absClient p' pc')]"
    using assms(2) by (intro nth_equalityI) (auto simp: absPooled_def nth_list_update)
qed

lemma absPooled_nth: "k < length pcs \<Longrightarrow> absPooled (p, pcs) ! k = (absSession p (pcs ! k), absClient p (pcs ! k))"
  by (simp add: absPooled_def)

lemma onClientE:
  assumes "onClient k f x = Some y"
  obtains p pcs p' pc' where "x = (p, pcs)" "k < length pcs" "f (p, pcs ! k) = Some (p', pc')" "y = (p', pcs[k := pc'])"
  using assms by (cases x) (auto simp: onClient_def split: if_splits)

text \<open>One client's operation, given what it does to the values of this client.\<close>

lemma onClient_sim:
  assumes "onClient k f x = Some y" "pool_inv cfg x"
    and ok: "\<And>n p pc w. local_inv cfg n (p, pc) \<Longrightarrow> f (p, pc) = Some w \<Longrightarrow> local_ok cfg n (p, pc) w"
    and sim: "\<And>n p pc p' pc' xs. local_inv cfg n (p, pc) \<Longrightarrow> f (p, pc) = Some (p', pc') \<Longrightarrow> k < length xs \<Longrightarrow>
      xs ! k = (absSession p pc, absClient p pc) \<Longrightarrow> value_step\<^sup>*\<^sup>* xs (xs[k := (absSession p' pc', absClient p' pc')])"
  shows "pool_inv cfg y \<and> value_step\<^sup>*\<^sup>* (absPooled x) (absPooled y)"
  using assms(1)
proof (rule onClientE)
  fix p pcs p' pc'
  assume x: "x = (p, pcs)" "k < length pcs" "f (p, pcs ! k) = Some (p', pc')" "y = (p', pcs[k := pc'])"
  note inv = pool_local_inv [OF assms(2) [unfolded x(1)] x(2)]
  note l = local_ok_pool [OF assms(2) [unfolded x(1)] x(2) ok [OF inv x(3)]]
  have "value_step\<^sup>*\<^sup>* (absPooled x) ((absPooled x)[k := (absSession p' pc', absClient p' pc')])"
    using x(1,2) by (intro sim [OF inv x(3)]) (simp_all add: absPooled_nth absPooled_def)
  then show ?thesis using l by (simp add: x(1,4))
qed

lemma count_remove_le: "count_list (take i xs @ drop (Suc i) xs) b \<le> count_list xs b"
  by (metis append_take_drop_id count_list_append_eq drop_drop le_add2 add_le_cancel_left plus_1_eq_Suc)

lemma pool_step_sim:
  assumes "pool_inv cfg x" "pool_step cfg x y"
  shows "pool_inv cfg y \<and> value_step\<^sup>*\<^sup>* (absPooled x) (absPooled y)"
  using assms(2)
proof cases
  case (step_deliver k pick channel packet)
  then show ?thesis
  proof (rule onClient_sim [OF _ assms(1)], goal_cases)
    case (1 n p pc w)
    then show ?case using Deliver_ok by auto
  next
    case (2 n p pc p' pc' xs)
    then obtain dropped where "pooledDeliver cfg pick channel packet (p, pc) = Some ((p', pc'), dropped)" by auto
    from abs_Deliver [OF 2(1) this] show ?case
      using value_deliver [OF 2(3,4), of channel packet] by (auto intro: r_into_rtranclp)
  qed
next
  case (step_run k pick serverDone)
  then show ?thesis
  proof (rule onClient_sim [OF _ assms(1)], goal_cases)
    case (2 n p pc p' pc' xs)
    from abs_Run [OF 2(2)] obtain ch slow where "run pick serverDone (absSession p pc) (cl_writeChan (absClient p pc)) = Ran (absSession p' pc') ch slow"
        "absClient p' pc' = (absClient p pc)\<lparr>cl_writeChan := ch\<rparr>" by auto
    with value_run [OF 2(3,4)] show ?case by (auto intro: r_into_rtranclp)
  qed (rule Run_ok)
next
  case (step_take k serverDone err)
  then show ?thesis
  proof (rule onClient_sim [OF _ assms(1)], goal_cases)
    case (2 n p pc p' pc' xs)
    from abs_Take [OF 2(2)] value_writer [OF 2(3,4), of serverDone err] show ?case by (auto intro: r_into_rtranclp)
  qed (rule Take_ok)
next
  case (step_written k)
  then show ?thesis
  proof (rule onClient_sim [OF _ assms(1)], goal_cases)
    case (2 n p pc p' pc' xs)
    from abs_Written [OF 2(2)] 2(3,4) show ?case by (metis list_update_id rtranclp.rtrancl_refl)
  qed (rule Written_ok)
next
  case (step_destroy k)
  then show ?thesis
  proof (rule onClient_sim [OF _ assms(1)], goal_cases)
    case (2 n p pc p' pc' xs)
    from abs_Destroy [OF 2(2)] value_destroy [OF 2(3,4)] show ?case by (auto intro: r_into_rtranclp)
  qed (rule Destroy_ok)
next
  case (step_fields k channels active quitClosed)
  then show ?thesis
  proof (rule onClient_sim [OF _ assms(1)], goal_cases)
    case (1 n p pc w)
    then show ?case by (auto intro!: local_ok_moves simp: owned_def)
  next
    case (2 n p pc p' pc' xs)
    have "setFields channels active quitClosed (absSession p pc) = absSession p' pc'"
      using 2(2) by (intro client_session.equality) (auto simp: setFields_def absSession_def)
    moreover have "absClient p' pc' = absClient p pc" using 2(2) by (auto simp: absClient_def)
    ultimately show ?case using value_fields [OF 2(3,4), of channels active quitClosed] by (auto intro: r_into_rtranclp)
  qed
next
  case (step_attach cs c p pcs)
  have "(absSession p (pooledNew cs c), absClient p (pooledNew cs c)) = (cs, c)"
    using step_attach(3) by (simp add: pooledNew_def absSession_def absClient_def absChan_def make_chan_def attachable_def)
  then have "value_step (absPooled x) (absPooled y)" using value_attach [OF step_attach(3)] by (simp add: step_attach(1,2) absPooled_def)
  moreover have "owned (pooledNew cs c) = []" by (simp add: pooledNew_def owned_def make_chan_def)
  then have "pool_inv cfg y" using assms(1) by (simp add: step_attach(1,2) pool_inv_def owners_def) (simp add: pooledNew_def make_chan_def)
  ultimately show ?thesis by blast
next
  case (step_gc p pcs i)
  let ?p = "p\<lparr>po_free := take i (po_free p) @ drop (Suc i) (po_free p)\<rparr>"
  have "owners (?p, pcs) b \<le> owners (p, pcs) b" for b using count_remove_le [of i "po_free p" b] by (simp add: owners_def)
  moreover have "owners (p, pcs) b \<le> (if b < po_next p then 1 else 0)" for b using assms(1) by (simp add: step_gc(1) pool_inv_def)
  ultimately have "owners (?p, pcs) b \<le> (if b < po_next p then 1 else 0)" for b by (meson order_trans)
  then have "pool_inv cfg y" using assms(1) by (simp add: step_gc pool_inv_def)
  moreover have "absSession ?p pc = absSession p pc" "absClient ?p pc = absClient p pc" for pc by (rule abs_cong, simp)+
  then have "absPooled y = absPooled x" by (simp add: step_gc absPooled_def)
  ultimately show ?thesis by simp
qed

interpretation packets: simulation pool_init "pool_step cfg" "pool_inv cfg" absPooled "\<lambda>xs. xs = []" value_step for cfg
proof
  show "pool_inv cfg x" if "pool_init x" for x using that by (cases x) (auto simp: pool_init_def pool_inv_def owners_def)
  show "absPooled x = []" if "pool_init x" for x using that by (cases x) (simp add: pool_init_def absPooled_def)
qed (use pool_step_sim in blast)+

text \<open>The fan-out finds a buffer that is large enough.\<close>

lemma pooledDeliver_returns:
  assumes "local_inv cfg n (p, pc)" "2 \<le> length packet" "int (length packet) \<le> BufferSize cfg"
    and "case pick of None \<Rightarrow> True | Some i \<Rightarrow> i < length (po_free p)"
  shows "pooledDeliver cfg pick channel packet (p, pc) \<noteq> None"
proof -
  obtain b p' where g: "poolGet cfg pick p = Some (b, p')"
    using assms(3,4) by (auto simp: poolGet_def packetPool_New_def split: option.splits)
  have "b < po_next p'" using poolGet_owner(1) [OF assms(1) g, of b] by (auto split: if_splits)
  then have "length packet \<le> length (po_store p' b)" using poolGet_owner(3) [OF assms(1) g, of b] assms(3) by simp
  moreover have "\<not> ch_closed (pc_queue pc)" using assms(1) by (simp add: local_inv_def)
  ultimately show ?thesis using g assms(2) by (auto simp: pooledDeliver_def Let_def trySend_def split: option.split)
qed

section \<open>Properties\<close>

text \<open>
  C14. The pool of buffers is invisible: whatever the goroutines of any number of clients and the run-time
  system do, every buffer is in the pool or on its way in at most one place (no buffer is given back
  twice or written over while a packet is in it), and the clients are in a state that they reach with
  packets as values that are delivered, forwarded and written by the operations \<open>deliver\<close>, \<open>run\<close> and
  \<open>writer\<close>. And the copy of a packet for a client does not panic when the packet has a channel byte and
  fits the buffer size.
\<close>

theorem packetPool_invisible:
  assumes "reach pool_init (pool_step cfg) (p, pcs)"
  shows "reach (\<lambda>xs. xs = []) value_step (absPooled (p, pcs)) \<and> (\<forall>b. owners (p, pcs) b \<le> 1) \<and>
    (\<forall>k packet pick channel. k < length pcs \<and> 2 \<le> length packet \<and> int (length packet) \<le> BufferSize cfg \<and>
       (case pick of None \<Rightarrow> True | Some i \<Rightarrow> i < length (po_free p)) \<longrightarrow>
       pooledDeliver cfg pick channel packet (p, pcs ! k) \<noteq> None)"
proof -
  have inv: "pool_inv cfg (p, pcs)" using assms by (rule packets.reach_inv)
  have "owners (p, pcs) b \<le> (if b < po_next p then 1 else 0)" for b using inv by (simp add: pool_inv_def)
  then have "owners (p, pcs) b \<le> 1" for b by (meson order_trans le_numeral_extra(4) zero_le_one if_split)
  moreover have "pooledDeliver cfg pick channel packet (p, pcs ! k) \<noteq> None"
    if "k < length pcs \<and> 2 \<le> length packet \<and> int (length packet) \<le> BufferSize cfg \<and>
       (case pick of None \<Rightarrow> True | Some i \<Rightarrow> i < length (po_free p))" for k packet pick channel
    using that by (intro pooledDeliver_returns [OF pool_local_inv [OF inv]]) blast+
  ultimately show ?thesis using packets.reach_abs [OF assms] by blast
qed

definition pool_empty :: pool where
  "pool_empty = \<lparr> po_store = (\<lambda>b. []), po_free = [], po_next = 0 \<rparr>"

definition viewer :: pooled_client where
  "viewer = pooledNew ((the (NewClientSession DefaultConfig 7 ''s''))\<lparr>cs_channels := [(0, 2)]\<rparr>)
     (fst (the (NewClient ''10.0.0.1:554'' ''10.0.0.9:4000'' metrics_zero)))"

theorem packetPool_invisible_witness:
  "\<exists>w. pooledDeliver DefaultConfig None 0 ''$a00'' (pool_empty, viewer) = Some (w, False) \<and>
     bytes (fst w) (hd (ch_buf (pc_queue (snd w)))) = CHR ''$'' # to_byte 2 # ''00'' \<and>
     reach (\<lambda>xs. xs = []) value_step (absPooled (pool_empty, [viewer]))"
proof -
  have a: "attachable ((the (NewClientSession DefaultConfig 7 ''s''))\<lparr>cs_channels := [(0, 2)]\<rparr>)
      (fst (the (NewClient ''10.0.0.1:554'' ''10.0.0.9:4000'' metrics_zero)))" by code_simp
  have "reach pool_init (pool_step DefaultConfig) (pool_empty, [])" by (rule reach_init) (simp add: pool_init_def pool_empty_def)
  then have "reach pool_init (pool_step DefaultConfig) (pool_empty, [] @ [viewer])"
    unfolding viewer_def by (rule reach_step) (rule step_attach [OF a])
  then have r: "reach pool_init (pool_step DefaultConfig) (pool_empty, [viewer])" by simp
  have "pooledDeliver DefaultConfig None 0 ''$a00'' (pool_empty, [viewer] ! 0) \<noteq> None"
    using packetPool_invisible [OF r] by (auto simp: DefaultConfig_def)
  then obtain w dropped where w: "pooledDeliver DefaultConfig None 0 ''$a00'' (pool_empty, viewer) = Some (w, dropped)" by auto
  have v: "mget (cs_channels (pc_session viewer)) 0 = Some 2" "pc_queue viewer = make_chan (nat (PacketQueueSize DefaultConfig))"
    by (simp_all add: viewer_def pooledNew_def NewClientSession_def DefaultConfig_def make_chan_def)
  have "\<not> dropped \<and> bytes (fst w) (hd (ch_buf (pc_queue (snd w)))) = CHR ''$'' # to_byte 2 # ''00''"
    using w by (cases rule: pooledDeliver_cases)
      (auto simp: v trySend_def make_chan_def DefaultConfig_def bytes_def clientPacket_def split: if_splits)
  with w packetPool_invisible [OF r] show ?thesis by auto
qed

end
