(* ===== verification/Proxy_Server.thy ===== *)
theory Proxy_Server
  imports Rtsp_Client Rtsp_ReadLoop
begin

text \<open>
  The server (\<open>server.go\<close>) and the main program (\<open>cmd/main.go\<close>): the listening socket, the accept loop,
  the shutdown, and the command line. What the operating system answers is an argument. The
  properties are about the shutdown and about the configuration that the command line makes.
\<close>

section \<open>The server\<close>

datatype listener = NoListener | Listening | ListenerClosed

text \<open>\<open>sv_clients\<close> is the wait group of the connections, \<open>sv_conns\<close> the clients that were made.\<close>

record server =
  sv_ctxDone :: bool
  sv_rtspPort :: int
  sv_listener :: listener
  sv_clients :: nat
  sv_conns :: "client list"
  sv_manager :: manager

definition NewServer :: "bool \<Rightarrow> server" where
  "NewServer ctxDone =
     \<lparr> sv_ctxDone = ctxDone, sv_rtspPort = 0, sv_listener = NoListener, sv_clients = 0, sv_conns = [],
       sv_manager = NewStreamManager\<lparr>sm_serverDone := ctxDone\<rparr> \<rparr>"

text \<open>The address, and the errors of \<open>ResolveTCPAddr\<close> and \<open>ListenTCP\<close> on it.\<close>

record socket_env =
  so_resolve :: "string \<Rightarrow> string option"
  so_listen :: "string \<Rightarrow> string option"

definition setupOurSocket :: "socket_env \<Rightarrow> server \<Rightarrow> string option" where
  "setupOurSocket e sv =
     (let tcpAddr = ''0.0.0.0:'' @ itoa (sv_rtspPort sv)
      in case so_resolve e tcpAddr of
           Some err \<Rightarrow> Some (''failed to resolve TCP address: '' @ err)
         | None \<Rightarrow>
             (case so_listen e tcpAddr of
                Some err \<Rightarrow> Some (''failed to listen on TCP: '' @ err)
              | None \<Rightarrow> None))"

definition Listen :: "socket_env \<Rightarrow> int \<Rightarrow> server \<Rightarrow> string option \<times> server" where
  "Listen e portNum sv =
     (let sv = sv\<lparr>sv_rtspPort := portNum\<rparr>
      in case setupOurSocket e sv of
           Some err \<Rightarrow> (Some (''failed to setup socket: '' @ err), sv\<lparr>sv_listener := NoListener\<rparr>)
         | None \<Rightarrow> (None, sv\<lparr>sv_listener := Listening\<rparr>))"

definition LookupStream :: "config \<Rightarrow> int \<Rightarrow> target \<Rightarrow> server \<Rightarrow> nat \<times> server" where
  "LookupStream cfg now target sv =
     (case GetStream cfg now target (sv_manager sv) of (n, m) \<Rightarrow> (n, sv\<lparr>sv_manager := m\<rparr>))"

text \<open>A new connection, with the addresses of its ends; and the end of a connection.\<close>

definition newClientConnection :: "string \<Rightarrow> string \<Rightarrow> server \<Rightarrow> server option" where
  "newClientConnection local rem sv =
     (case NewClient local rem (sm_metrics (sv_manager sv)) of
        None \<Rightarrow> None
      | Some (c, mt) \<Rightarrow>
          Some (sv\<lparr>sv_clients := sv_clients sv + 1, sv_conns := sv_conns sv @ [c],
                   sv_manager := (sv_manager sv)\<lparr>sm_metrics := mt\<rparr>\<rparr>))"

definition connectionDone :: "server \<Rightarrow> server" where
  "connectionDone sv = sv\<lparr>sv_clients := sv_clients sv - 1\<rparr>"

text \<open>
  One accept: a connection, or an error with whether it is a timeout and whether the context was done by
  then. Without a listener the accept fails. The loop returns (\<open>True\<close>) or waits for the next accept.
\<close>

datatype accept_event = Accepted string string | AcceptError string bool bool

fun incomingConnectionHandler :: "accept_event list \<Rightarrow> server \<Rightarrow> (server \<times> bool) option" where
  "incomingConnectionHandler [] sv = Some (sv, sv_ctxDone sv)"
| "incomingConnectionHandler (ev # evs) sv =
     (if sv_ctxDone sv then Some (sv, True)
      else (case (if sv_listener sv = Listening then ev else AcceptError ''invalid argument'' False False) of
              Accepted local rem \<Rightarrow>
                (case newClientConnection local rem sv of
                   None \<Rightarrow> None
                 | Some sv \<Rightarrow> incomingConnectionHandler evs sv)
            | AcceptError err timeout ended \<Rightarrow>
                (if ended \<or> contains err ''closed network connection'' then Some (sv\<lparr>sv_ctxDone := sv_ctxDone sv \<or> ended\<rparr>, True)
                 else incomingConnectionHandler evs sv)))"

definition Server_Start :: "accept_event list \<Rightarrow> server \<Rightarrow> (server \<times> bool) option" where
  "Server_Start evs sv = incomingConnectionHandler evs sv"

text \<open>
  The shutdown: the listener is closed, the context cancelled, and the clients awaited (\<open>others\<close> is
  what happens meanwhile) until the deadline.
\<close>

definition stopServing :: "server \<Rightarrow> server" where
  "stopServing sv =
     sv\<lparr>sv_listener := (if sv_listener sv = NoListener then NoListener else ListenerClosed), sv_ctxDone := True,
        sv_manager := cancelServer (sv_manager sv)\<rparr>"

definition Server_Shutdown :: "net_env \<Rightarrow> int \<Rightarrow> (server \<Rightarrow> server) \<Rightarrow> bool \<Rightarrow> server \<Rightarrow> (string option \<times> server) option" where
  "Server_Shutdown e now others deadline sv =
     (let sv = others (stopServing sv)
      in if deadline \<or> sv_clients sv \<noteq> 0 then Some (Some ''context deadline exceeded'', sv)
         else map_option (\<lambda>m. (None, sv\<lparr>sv_manager := m\<rparr>)) (Manager_Shutdown e now (sv_manager sv)))"

section \<open>The main program\<close>

record flags =
  fl_port :: int
  fl_verbose :: bool
  fl_idleTimeout :: int
  fl_packetQueueSize :: int
  fl_bufferSize :: int
  fl_dialTimeout :: int
  fl_metricsPort :: int

definition default_flags :: flags where
  "default_flags =
     \<lparr> fl_port = 554, fl_verbose = False, fl_idleTimeout = 20 * Second, fl_packetQueueSize = 1000,
       fl_bufferSize = 65536, fl_dialTimeout = 5 * Second, fl_metricsPort = 0 \<rparr>"

definition applyFlags :: "flags \<Rightarrow> config \<Rightarrow> config" where
  "applyFlags fl cfg =
     cfg\<lparr>IdleTimeout := fl_idleTimeout fl, PacketQueueSize := fl_packetQueueSize fl, BufferSize := fl_bufferSize fl,
         DialTimeout := fl_dialTimeout fl, MetricsPort := fl_metricsPort fl\<rparr>"

text \<open>
  The run of the program: the log file and the metrics server, the socket, what clients do until the
  signal comes (\<open>serve\<close>), and the shutdown. The result is the exit status, with the server when
  there is one; a panic is \<open>None\<close>.
\<close>

record main_env =
  ma_logFile :: "string option"
  ma_metricsListen :: "int \<Rightarrow> string option"
  ma_socket :: socket_env
  ma_serve :: "config \<Rightarrow> server \<Rightarrow> server option"
  ma_net :: net_env
  ma_now :: int
  ma_others :: "server \<Rightarrow> server"
  ma_deadline :: bool

definition main_program :: "flags \<Rightarrow> main_env \<Rightarrow> (nat \<times> server option) option" where
  "main_program fl e =
     (if ma_logFile e \<noteq> None then Some (1, None)
      else
        (let cfg = applyFlags fl DefaultConfig
         in case StartMetricsServer (ma_metricsListen e) (fl_metricsPort fl) None of
              Inl err \<Rightarrow> Some (1, None)
            | Inr ms \<Rightarrow>
                (case Listen (ma_socket e) (fl_port fl) (NewServer False) of
                   (Some err, sv) \<Rightarrow> Some (1, Some sv)
                 | (None, sv) \<Rightarrow>
                     (case ma_serve e cfg sv of
                        None \<Rightarrow> None
                      | Some sv \<Rightarrow>
                          (case Server_Shutdown (ma_net e) (ma_now e) (ma_others e) (ma_deadline e) sv of
                             None \<Rightarrow> None
                           | Some (Some err, sv) \<Rightarrow> Some (1, Some sv)
                           | Some (None, sv) \<Rightarrow> Some (0, Some sv))))))"

section \<open>Properties\<close>



text \<open>
  The command line is taken over unchecked: \<open>main\<close> never calls \<open>Validate\<close>. With the default flags
  the configuration is the default one; with a negative queue size the first client of a stream makes
  the proxy panic, and with a negative buffer size the read loop panics when it makes its buffer.
  \<open>Validate\<close> would have repaired both.
\<close>

theorem flags_not_validated:
  "applyFlags default_flags DefaultConfig = DefaultConfig \<and>
   AddClient (applyFlags (default_flags\<lparr>fl_packetQueueSize := - 1\<rparr>) DefaultConfig) 0 ''77''
     (NewStream DefaultConfig 0 ''cam'' [] [] ''/ch1'') = None \<and>
   readLoop (applyFlags (default_flags\<lparr>fl_bufferSize := - 1\<rparr>) DefaultConfig) 0 net_ok [] [] StopCtx
     (playing_stream sample_session, metrics_zero) = Panicked \<and>
   config_ok (Validate (applyFlags (default_flags\<lparr>fl_packetQueueSize := - 1, fl_bufferSize := - 1\<rparr>) DefaultConfig))"
proof (intro conjI)
  show "applyFlags default_flags DefaultConfig = DefaultConfig"
    by (simp add: applyFlags_def default_flags_def DefaultConfig_def)
  show "AddClient (applyFlags (default_flags\<lparr>fl_packetQueueSize := - 1\<rparr>) DefaultConfig) 0 ''77''
      (NewStream DefaultConfig 0 ''cam'' [] [] ''/ch1'') = None"
    by (simp add: AddClient_def NewStream_def NewClientSession_def applyFlags_def stopIdleTimer_def Let_def)
  obtain r where "st_remote (playing_stream sample_session) = Some r" "rm_conn r" using playing_remote by blast
  then show "readLoop (applyFlags (default_flags\<lparr>fl_bufferSize := - 1\<rparr>) DefaultConfig) 0 net_ok [] [] StopCtx
      (playing_stream sample_session, metrics_zero) = Panicked"
    by (simp add: readLoop_def applyFlags_def)
qed (rule Validate_ok)

end
