(* ===== verification/Proxy_Locks.thy ===== *)
theory Proxy_Locks
  imports Go_Prelude
begin

text \<open>
  The locks of the proxy: which of them every function takes, in which order, and whether goroutines
  that run these functions can block each other for good. A \<open>sync.RWMutex\<close> makes a reader wait as soon
  as a writer waits. The properties: goroutines made of the functions of the proxy always get to their
  end, because every function takes its locks in the order of their ranks, except for the two
  functions that take the read lock of a stream twice, which can block together with one packet.
\<close>

section \<open>Locks\<close>

text \<open>
  \<open>Lock\<close> is two moments: the writer announces itself, and it gets the lock when the readers are gone.
  A \<open>sync.Mutex\<close> is used like a lock without readers.
\<close>

record rwmutex =
  rw_readers :: nat
  rw_waiting :: nat
  rw_writer :: bool

definition rw_new :: rwmutex where
  "rw_new = \<lparr> rw_readers = 0, rw_waiting = 0, rw_writer = False \<rparr>"

datatype lock_op = RLock | RUnlock | LockCalled | LockGranted | Unlock

text \<open>\<open>None\<close>: the operation has to wait.\<close>

fun lockOp :: "lock_op \<Rightarrow> rwmutex \<Rightarrow> rwmutex option" where
  "lockOp RLock m = (if rw_writer m \<or> 0 < rw_waiting m then None else Some (m\<lparr>rw_readers := rw_readers m + 1\<rparr>))"
| "lockOp RUnlock m = (if rw_readers m = 0 then None else Some (m\<lparr>rw_readers := rw_readers m - 1\<rparr>))"
| "lockOp LockCalled m = Some (m\<lparr>rw_waiting := rw_waiting m + 1\<rparr>)"
| "lockOp LockGranted m =
     (if rw_readers m = 0 \<and> \<not> rw_writer m \<and> 0 < rw_waiting m
      then Some (m\<lparr>rw_waiting := rw_waiting m - 1, rw_writer := True\<rparr>) else None)"
| "lockOp Unlock m = (if rw_writer m then Some (m\<lparr>rw_writer := False\<rparr>) else None)"

text \<open>
  The locks: of the stream manager, of a stream, of the connection of a remote, of a session, of a
  transport and of a client session, each with the number of the object, and of the metrics server.
\<close>

datatype mutex = ManagerMu | StreamMu nat | ConnMu nat | SessionMu nat | TransportMu nat | ClientSessionMu nat | MetricsMu

type_synonym lock_code = "(mutex \<times> lock_op) list"

abbreviation reading :: "mutex \<Rightarrow> lock_code \<Rightarrow> lock_code" where
  "reading l body \<equiv> (l, RLock) # body @ [(l, RUnlock)]"

abbreviation writing :: "mutex \<Rightarrow> lock_code \<Rightarrow> lock_code" where
  "writing l body \<equiv> (l, LockCalled) # (l, LockGranted) # body @ [(l, Unlock)]"

text \<open>Goroutines, each with the operations it still has to do; any of them that can do its next one may.\<close>

type_synonym lock_system = "(mutex \<Rightarrow> rwmutex) \<times> lock_code list"

inductive lock_step :: "lock_system \<Rightarrow> lock_system \<Rightarrow> bool" where
  lock_stepI: "i < length ts \<Longrightarrow> ts ! i = (l, op) # rest \<Longrightarrow> lockOp op (m l) = Some r \<Longrightarrow>
    lock_step (m, ts) (m(l := r), ts[i := rest])"

definition all_done :: "lock_system \<Rightarrow> bool" where
  "all_done x = list_all (\<lambda>t. t = []) (snd x)"

definition unlocked :: "mutex \<Rightarrow> rwmutex" where
  "unlocked = (\<lambda>l. rw_new)"

section \<open>The functions of the proxy\<close>

text \<open>
  What every function does with the locks, in the order of the code. A function that visits several
  objects is given those it visits.
\<close>

subsection \<open>Client sessions, sessions and transports\<close>

definition ClientSession_Start_locks :: "nat \<Rightarrow> lock_code" where
  "ClientSession_Start_locks k = writing (ClientSessionMu k) []"

definition ClientSession_Stop_locks :: "nat \<Rightarrow> lock_code" where
  "ClientSession_Stop_locks k = writing (ClientSessionMu k) []"

definition Session_LookupTransport_locks :: "nat \<Rightarrow> lock_code" where
  "Session_LookupTransport_locks j = writing (SessionMu j) []"

definition Session_Stop_locks :: "nat \<Rightarrow> lock_code" where
  "Session_Stop_locks j = writing (SessionMu j) []"

definition StartUpstream_locks :: "nat \<Rightarrow> lock_code" where
  "StartUpstream_locks j = writing (SessionMu j) []"

subsection \<open>The remote\<close>

definition Dial_locks :: "nat \<Rightarrow> lock_code" where
  "Dial_locks c = writing (ConnMu c) []"

definition Disconnect_locks :: "nat \<Rightarrow> lock_code" where
  "Disconnect_locks c = writing (ConnMu c) []"

definition SendRequest_locks :: "nat \<Rightarrow> lock_code" where
  "SendRequest_locks c = writing (ConnMu c) []"

definition SendBinary_locks :: "nat \<Rightarrow> lock_code" where
  "SendBinary_locks c = writing (ConnMu c) []"

definition handleAuthenticationFailure_locks :: "nat \<Rightarrow> lock_code" where
  "handleAuthenticationFailure_locks c = writing (ConnMu c) []"

text \<open>For every attempt, whether the request is taken out of the queue again.\<close>

definition SendRequestSync_locks :: "nat \<Rightarrow> bool list \<Rightarrow> lock_code" where
  "SendRequestSync_locks c attempts =
     concat (map (\<lambda>removed. writing (ConnMu c) [] @ SendRequest_locks c @ (if removed then writing (ConnMu c) [] else []))
       attempts)"

text \<open>The request at the head of the queue is missing, is tried again, or is concluded after its handler.\<close>

datatype response_path = QueueEmpty | TriedAgain | Concluded lock_code

definition HandleUpstreamResponse_locks :: "nat \<Rightarrow> response_path \<Rightarrow> lock_code" where
  "HandleUpstreamResponse_locks c path =
     writing (ConnMu c) [] @
     (case path of
        QueueEmpty \<Rightarrow> []
      | TriedAgain \<Rightarrow> handleAuthenticationFailure_locks c @ SendRequest_locks c
      | Concluded handler \<Rightarrow> handler @ writing (ConnMu c) [])"

definition LookupSession_locks :: "nat \<Rightarrow> lock_code" where
  "LookupSession_locks s = writing (StreamMu s) []"

definition handleOptions_locks :: "nat \<Rightarrow> lock_code" where
  "handleOptions_locks s = writing (StreamMu s) []"

definition handleDescribe_locks :: "nat \<Rightarrow> lock_code" where
  "handleDescribe_locks s = writing (StreamMu s) []"

definition handleTeardown_locks :: "nat \<Rightarrow> nat \<Rightarrow> lock_code" where
  "handleTeardown_locks s j = LookupSession_locks s @ Session_Stop_locks j @ writing (StreamMu s) []"

definition handleSetup_locks :: "nat \<Rightarrow> nat \<Rightarrow> nat \<Rightarrow> lock_code" where
  "handleSetup_locks s j t = LookupSession_locks s @ Session_LookupTransport_locks j @ writing (TransportMu t) []"

text \<open>For every entry of the \<open>RTP-Info\<close> header the transports with its name.\<close>

definition handlePlay_locks :: "nat \<Rightarrow> nat \<Rightarrow> nat list list \<Rightarrow> lock_code" where
  "handlePlay_locks s j entries =
     LookupSession_locks s @
     concat (map (\<lambda>ts. writing (SessionMu j) (concat (map (\<lambda>t. writing (TransportMu t) []) ts))) entries) @
     StartUpstream_locks j"

text \<open>The sessions that are visited, with the transport that is found there.\<close>

definition SetupUpstream_locks :: "nat \<Rightarrow> nat \<Rightarrow> bool list \<Rightarrow> (nat \<times> nat option) list \<Rightarrow> lock_code" where
  "SetupUpstream_locks s c attempts visited =
     SendRequestSync_locks c attempts @
     reading (StreamMu s)
       (concat (map (\<lambda>(j, t). reading (SessionMu j) (case t of None \<Rightarrow> [] | Some t \<Rightarrow> reading (TransportMu t) [])) visited))"

definition PlayUpstream_locks :: "nat \<Rightarrow> nat \<Rightarrow> bool list \<Rightarrow> nat option \<Rightarrow> lock_code" where
  "PlayUpstream_locks s c attempts j =
     SendRequestSync_locks c attempts @ reading (StreamMu s) [] @ (case j of None \<Rightarrow> [] | Some j \<Rightarrow> StartUpstream_locks j)"

definition Remote_LookupTransport_locks :: "nat \<Rightarrow> nat list \<Rightarrow> lock_code" where
  "Remote_LookupTransport_locks s visited = reading (StreamMu s) (concat (map (\<lambda>j. reading (SessionMu j) []) visited))"

subsection \<open>The stream\<close>

definition GetState_locks :: "nat \<Rightarrow> lock_code" where
  "GetState_locks s = reading (StreamMu s) []"

definition transition_locks :: "nat \<Rightarrow> lock_code" where
  "transition_locks s = writing (StreamMu s) []"

text \<open>A new client starts its session; a client that is known does not.\<close>

definition AddClient_locks :: "nat \<Rightarrow> nat option \<Rightarrow> lock_code" where
  "AddClient_locks s new = writing (StreamMu s) (case new of None \<Rightarrow> [] | Some k \<Rightarrow> ClientSession_Start_locks k)"

definition RemoveClient_locks :: "nat \<Rightarrow> nat option \<Rightarrow> lock_code" where
  "RemoveClient_locks s known = writing (StreamMu s) (case known of None \<Rightarrow> [] | Some k \<Rightarrow> ClientSession_Stop_locks k)"

definition Stream_Start_locks :: "nat \<Rightarrow> lock_code" where
  "Stream_Start_locks s = writing (StreamMu s) []"

text \<open>The remote, if there is one, and the sessions and clients of the stream at that moment.\<close>

definition closeRemote_locks :: "nat option \<Rightarrow> nat list \<Rightarrow> lock_code" where
  "closeRemote_locks r sessions =
     (case r of None \<Rightarrow> [] | Some c \<Rightarrow> concat (map (\<lambda>j. SendRequest_locks c) sessions) @ Disconnect_locks c)"

definition Stream_Stop_locks :: "nat \<Rightarrow> nat option \<Rightarrow> nat list \<Rightarrow> lock_code" where
  "Stream_Stop_locks s r sessions =
     transition_locks s @ writing (StreamMu s) [] @ closeRemote_locks r sessions @
     concat (map Session_Stop_locks sessions) @ transition_locks s"

definition idleFire_locks :: "nat \<Rightarrow> nat option \<Rightarrow> nat list \<Rightarrow> lock_code" where
  "idleFire_locks s r sessions = writing (StreamMu s) [] @ Stream_Stop_locks s r sessions"

definition RemoveStream_locks :: lock_code where
  "RemoveStream_locks = writing ManagerMu []"

definition Stream_Destroy_locks :: "nat \<Rightarrow> nat option \<Rightarrow> nat list \<Rightarrow> nat list \<Rightarrow> lock_code" where
  "Stream_Destroy_locks s r clients sessions =
     transition_locks s @ writing (StreamMu s) [] @ closeRemote_locks r sessions @
     concat (map ClientSession_Stop_locks clients) @ concat (map Session_Stop_locks sessions) @ RemoveStream_locks"

text \<open>The connect loop replaces the remote.\<close>

definition replaceRemote_locks :: "nat \<Rightarrow> nat option \<Rightarrow> lock_code" where
  "replaceRemote_locks s r = writing (StreamMu s) (case r of None \<Rightarrow> [] | Some c \<Rightarrow> Disconnect_locks c)"

definition readLoop_locks :: "nat \<Rightarrow> nat \<Rightarrow> lock_code" where
  "readLoop_locks s c = reading (StreamMu s) [] @ writing (ConnMu c) []"

definition dispatch_locks :: "nat \<Rightarrow> lock_code" where
  "dispatch_locks s = writing (StreamMu s) []"

definition GetBitrate_locks :: "nat \<Rightarrow> lock_code" where
  "GetBitrate_locks s = reading (StreamMu s) []"

definition ReportMetrics_locks :: "nat \<Rightarrow> lock_code" where
  "ReportMetrics_locks s = reading (StreamMu s) (GetBitrate_locks s)"

definition MapChannel_locks :: "nat \<Rightarrow> lock_code" where
  "MapChannel_locks s = writing (StreamMu s) []"

definition Stream_LookupTransport_locks :: "nat \<Rightarrow> nat list \<Rightarrow> lock_code" where
  "Stream_LookupTransport_locks s visited = reading (StreamMu s) (Remote_LookupTransport_locks s visited)"

definition publishSDP_locks :: "nat \<Rightarrow> lock_code" where
  "publishSDP_locks s = writing (StreamMu s) []"

definition forwardBinary_locks :: "nat \<Rightarrow> nat \<Rightarrow> lock_code" where
  "forwardBinary_locks s c = reading (StreamMu s) [] @ SendBinary_locks c"

subsection \<open>The manager and the metrics server\<close>

definition GetStream_locks :: lock_code where
  "GetStream_locks = writing ManagerMu []"

text \<open>The streams that are registered, with what \<open>Destroy\<close> finds in each.\<close>

definition Manager_Shutdown_locks :: "(nat \<times> nat option \<times> nat list \<times> nat list) list \<Rightarrow> lock_code" where
  "Manager_Shutdown_locks streams =
     writing ManagerMu [] @
     concat (map (\<lambda>(s, r, clients, sessions). Stream_Destroy_locks s r clients sessions) streams)"

definition metricsLoop_locks :: "nat list \<Rightarrow> lock_code" where
  "metricsLoop_locks streams = writing ManagerMu [] @ concat (map ReportMetrics_locks streams)"

definition StartMetricsServer_locks :: lock_code where
  "StartMetricsServer_locks = writing MetricsMu []"

definition ShutdownMetricsServer_locks :: lock_code where
  "ShutdownMetricsServer_locks = writing MetricsMu []"

text \<open>What a goroutine may run: any sequence of these functions, except those that nest the lock of a stream.\<close>

inductive lock_program :: "lock_code \<Rightarrow> bool" where
  "lock_program []"
| "lock_program p \<Longrightarrow> lock_program q \<Longrightarrow> lock_program (p @ q)"
| "lock_program (ClientSession_Start_locks k)"
| "lock_program (ClientSession_Stop_locks k)"
| "lock_program (Session_LookupTransport_locks j)"
| "lock_program (Session_Stop_locks j)"
| "lock_program (StartUpstream_locks j)"
| "lock_program (Dial_locks c)"
| "lock_program (Disconnect_locks c)"
| "lock_program (SendRequest_locks c)"
| "lock_program (SendBinary_locks c)"
| "lock_program (handleAuthenticationFailure_locks c)"
| "lock_program (SendRequestSync_locks c attempts)"
| "lock_program (HandleUpstreamResponse_locks c QueueEmpty)"
| "lock_program (HandleUpstreamResponse_locks c TriedAgain)"
| "lock_program p \<Longrightarrow> lock_program (HandleUpstreamResponse_locks c (Concluded p))"
| "lock_program (LookupSession_locks s)"
| "lock_program (handleOptions_locks s)"
| "lock_program (handleDescribe_locks s)"
| "lock_program (handleTeardown_locks s j)"
| "lock_program (handleSetup_locks s j t)"
| "lock_program (handlePlay_locks s j entries)"
| "lock_program (SetupUpstream_locks s c attempts visitedT)"
| "lock_program (PlayUpstream_locks s c attempts played)"
| "lock_program (Remote_LookupTransport_locks s visited)"
| "lock_program (GetState_locks s)"
| "lock_program (transition_locks s)"
| "lock_program (AddClient_locks s new)"
| "lock_program (RemoveClient_locks s known)"
| "lock_program (Stream_Start_locks s)"
| "lock_program (Stream_Stop_locks s r sessions)"
| "lock_program (idleFire_locks s r sessions)"
| "lock_program RemoveStream_locks"
| "lock_program (Stream_Destroy_locks s r clients sessions)"
| "lock_program (replaceRemote_locks s r)"
| "lock_program (readLoop_locks s c)"
| "lock_program (dispatch_locks s)"
| "lock_program (GetBitrate_locks s)"
| "lock_program (MapChannel_locks s)"
| "lock_program (publishSDP_locks s)"
| "lock_program (forwardBinary_locks s c)"
| "lock_program GetStream_locks"
| "lock_program StartMetricsServer_locks"
| "lock_program ShutdownMetricsServer_locks"
| "lock_program (Manager_Shutdown_locks streams)"


lemmas lock_defs = ClientSession_Start_locks_def ClientSession_Stop_locks_def Session_LookupTransport_locks_def Session_Stop_locks_def
  StartUpstream_locks_def Dial_locks_def Disconnect_locks_def SendRequest_locks_def SendBinary_locks_def
  handleAuthenticationFailure_locks_def SendRequestSync_locks_def HandleUpstreamResponse_locks_def LookupSession_locks_def
  handleOptions_locks_def handleDescribe_locks_def handleTeardown_locks_def handleSetup_locks_def handlePlay_locks_def
  SetupUpstream_locks_def PlayUpstream_locks_def Remote_LookupTransport_locks_def GetState_locks_def transition_locks_def
  AddClient_locks_def RemoveClient_locks_def Stream_Start_locks_def closeRemote_locks_def Stream_Stop_locks_def idleFire_locks_def
  RemoveStream_locks_def Stream_Destroy_locks_def replaceRemote_locks_def readLoop_locks_def dispatch_locks_def
  GetBitrate_locks_def MapChannel_locks_def publishSDP_locks_def forwardBinary_locks_def GetStream_locks_def
  Manager_Shutdown_locks_def StartMetricsServer_locks_def ShutdownMetricsServer_locks_def

section \<open>The order of the locks\<close>

text \<open>While a goroutine holds a lock it only takes locks of a higher rank.\<close>

fun rank :: "mutex \<Rightarrow> nat" where
  "rank ManagerMu = 0"
| "rank MetricsMu = 0"
| "rank (StreamMu s) = 1"
| "rank (ConnMu c) = 2"
| "rank (ClientSessionMu k) = 2"
| "rank (SessionMu j) = 2"
| "rank (TransportMu t) = 3"

text \<open>The locks that are held, the last one first, each with whether it is held for writing.\<close>

type_synonym held = "(mutex \<times> bool) list"

definition below :: "held \<Rightarrow> nat \<Rightarrow> bool" where
  "below h n = list_all (\<lambda>(l, w). rank l < n) h"

lemma below_Nil [simp]: "below [] n" by (simp add: below_def)

lemma below_Cons [simp]: "below ((l, w) # h) n \<longleftrightarrow> rank l < n \<and> below h n" by (simp add: below_def)

lemma below_mono: "below h n \<Longrightarrow> n \<le> k \<Longrightarrow> below h k" by (auto simp: below_def list_all_iff)

fun ordered :: "held \<Rightarrow> lock_code \<Rightarrow> bool" where
  "ordered h [] = (h = [])"
| "ordered h ((l, RLock) # p) = (below h (rank l) \<and> ordered ((l, False) # h) p)"
| "ordered h ((l, RUnlock) # p) = (h \<noteq> [] \<and> hd h = (l, False) \<and> ordered (tl h) p)"
| "ordered h ((l, LockCalled) # (l', LockGranted) # p) = (l' = l \<and> below h (rank l) \<and> ordered ((l, True) # h) p)"
| "ordered h ((l, Unlock) # p) = (h \<noteq> [] \<and> hd h = (l, True) \<and> ordered (tl h) p)"
| "ordered h _ = False"

text \<open>The same for a goroutine that may be waiting in \<open>Lock\<close>.\<close>

fun thread_ok :: "held \<Rightarrow> lock_code \<Rightarrow> bool" where
  "thread_ok h ((l, LockGranted) # p) = (below h (rank l) \<and> ordered ((l, True) # h) p)"
| "thread_ok h p = ordered h p"

lemma ordered_no_granted [simp]: "\<not> ordered h ((l, LockGranted) # p)"
  by simp

lemma ordered_thread_ok: "ordered h p \<Longrightarrow> thread_ok h p"
  by (cases "(h, p)" rule: thread_ok.cases) auto

text \<open>Code that can run wherever all locks held are below a rank.\<close>

definition closed :: "nat \<Rightarrow> lock_code \<Rightarrow> bool" where
  "closed n p = (\<forall>h q. below h n \<longrightarrow> ordered h q \<longrightarrow> ordered h (p @ q))"

named_theorems closed_intros

lemma closed_Nil [closed_intros]: "closed n []"
  by (simp add: closed_def)

lemma closed_append [closed_intros]: "closed n p \<Longrightarrow> closed n q \<Longrightarrow> closed n (p @ q)"
  by (simp add: closed_def)

lemma closed_mono: "closed n p \<Longrightarrow> k \<le> n \<Longrightarrow> closed k p"
  by (auto simp: closed_def intro: below_mono)

lemma closed_reading [closed_intros]: "closed (Suc (rank l)) body \<Longrightarrow> n \<le> rank l \<Longrightarrow> closed n (reading l body)"
proof -
  assume a: "closed (Suc (rank l)) body" "n \<le> rank l"
  have "ordered ((l, False) # h) (body @ (l, RUnlock) # q)" if h: "below h n" "ordered h q" for h q
  proof -
    have "below ((l, False) # h) (Suc (rank l))" using h(1) a(2) by (auto elim: below_mono)
    moreover have "ordered ((l, False) # h) ((l, RUnlock) # q)" using h(2) by simp
    ultimately show ?thesis using a(1) unfolding closed_def by blast
  qed
  then show ?thesis using a(2) by (auto simp: closed_def elim: below_mono)
qed

lemma closed_writing [closed_intros]: "closed (Suc (rank l)) body \<Longrightarrow> n \<le> rank l \<Longrightarrow> closed n (writing l body)"
proof -
  assume a: "closed (Suc (rank l)) body" "n \<le> rank l"
  have "ordered ((l, True) # h) (body @ (l, Unlock) # q)" if h: "below h n" "ordered h q" for h q
  proof -
    have "below ((l, True) # h) (Suc (rank l))" using h(1) a(2) by (auto elim: below_mono)
    moreover have "ordered ((l, True) # h) ((l, Unlock) # q)" using h(2) by simp
    ultimately show ?thesis using a(1) unfolding closed_def by blast
  qed
  then show ?thesis using a(2) by (auto simp: closed_def elim: below_mono)
qed

lemma closed_concat [closed_intros]: "(\<And>x. closed n (f x)) \<Longrightarrow> closed n (concat (map f xs))"
  by (induction xs) (auto intro: closed_Nil closed_append)

lemma closed_option [closed_intros]: "closed n p \<Longrightarrow> (\<And>x. closed n (f x)) \<Longrightarrow> closed n (case x of None \<Rightarrow> p | Some x \<Rightarrow> f x)"
  by (cases x) auto

lemma closed_prod [closed_intros]: "(\<And>a b. closed n (f a b)) \<Longrightarrow> closed n (case x of (a, b) \<Rightarrow> f a b)"
  by (cases x) auto

lemma closed_if [closed_intros]: "closed n p \<Longrightarrow> closed n q \<Longrightarrow> closed n (if b then p else q)"
  by simp

lemma closed_Stop [closed_intros]: "n \<le> 2 \<Longrightarrow> closed n (Session_Stop_locks j)" "n \<le> 2 \<Longrightarrow> closed n (ClientSession_Stop_locks k)"
  by (simp_all only: Session_Stop_locks_def ClientSession_Stop_locks_def) (intro closed_intros; simp)+

lemma lock_program_closed: "lock_program p \<Longrightarrow> closed 0 p"
proof (induction rule: lock_program.induct)
  case (2 p q)
  then show ?case by (intro closed_append)
qed (unfold lock_defs response_path.case, (intro closed_intros; simp)+)

lemma lock_program_ordered: "lock_program p \<Longrightarrow> ordered [] p"
  using lock_program_closed [of p] unfolding closed_def by (metis append_Nil2 below_Nil ordered.simps(1))

section \<open>The invariant\<close>

text \<open>
  Every goroutine with the locks it holds; the readers, the waiting writers and the writer of a lock are
  the goroutines that hold it or wait for it.
\<close>

definition holds :: "mutex \<Rightarrow> bool \<Rightarrow> held \<times> lock_code \<Rightarrow> nat" where
  "holds l w z = count_list (fst z) (l, w)"

definition waits :: "mutex \<Rightarrow> held \<times> lock_code \<Rightarrow> nat" where
  "waits l z = (if snd z \<noteq> [] \<and> hd (snd z) = (l, LockGranted) then 1 else 0)"

definition lock_counts :: "(held \<times> lock_code) list \<Rightarrow> mutex \<Rightarrow> rwmutex \<Rightarrow> bool" where
  "lock_counts zs l r =
     (rw_readers r = sum_list (map (holds l False) zs) \<and> rw_waiting r = sum_list (map (waits l) zs) \<and>
      (if rw_writer r then 1 else 0) = sum_list (map (holds l True) zs) \<and> (rw_writer r \<longrightarrow> rw_readers r = 0))"

definition lock_inv :: "lock_system \<Rightarrow> bool" where
  "lock_inv x = (\<exists>zs. snd x = map snd zs \<and> list_all (\<lambda>(h, t). thread_ok h t) zs \<and> (\<forall>l. lock_counts zs l (fst x l)))"

lemma thread_ok_cases:
  assumes "thread_ok h ((l, op) # rest)"
  shows "(op = RLock \<and> below h (rank l) \<and> ordered ((l, False) # h) rest) \<or>
    (op = RUnlock \<and> (\<exists>g. h = (l, False) # g \<and> ordered g rest)) \<or>
    (op = LockCalled \<and> (\<exists>p. rest = (l, LockGranted) # p \<and> below h (rank l) \<and> ordered ((l, True) # h) p)) \<or>
    (op = LockGranted \<and> below h (rank l) \<and> ordered ((l, True) # h) rest) \<or>
    (op = Unlock \<and> (\<exists>g. h = (l, True) # g \<and> ordered g rest))"
proof (cases op)
  case LockCalled
  then show ?thesis using assms by (cases "(h, (l, op) # rest)" rule: ordered.cases) auto
qed (use assms in \<open>auto simp: neq_Nil_conv\<close>)

lemma waits_Cons [simp]: "waits k (h, (l, op) # p) = (if k = l \<and> op = LockGranted then 1 else 0)"
  by (auto simp: waits_def)

lemma ordered_waits [simp]: "ordered h p \<Longrightarrow> waits l (h', p) = 0"
  by (cases p) (auto simp: waits_def)

text \<open>One operation of one goroutine, with the locks it holds before and after.\<close>

lemma lock_op_thread:
  assumes "thread_ok h ((l, op) # rest)" "lockOp op r = Some r'"
    and "holds l True (h, (l, op) # rest) \<le> (if rw_writer r then 1 else 0)" "rw_writer r \<longrightarrow> rw_readers r = 0"
  shows "\<exists>h'. thread_ok h' rest \<and>
    rw_readers r' + holds l False (h, (l, op) # rest) = rw_readers r + holds l False (h', rest) \<and>
    rw_waiting r' + waits l (h, (l, op) # rest) = rw_waiting r + waits l (h', rest) \<and>
    (if rw_writer r' then 1 else 0) + holds l True (h, (l, op) # rest) = (if rw_writer r then 1 else 0) + holds l True (h', rest) \<and>
    (rw_writer r' \<longrightarrow> rw_readers r' = 0) \<and>
    (\<forall>k. k \<noteq> l \<longrightarrow> (\<forall>w. holds k w (h', rest) = holds k w (h, (l, op) # rest)) \<and> waits k (h', rest) = waits k (h, (l, op) # rest))"
  using thread_ok_cases [OF assms(1)] assms(2-4)
proof (elim disjE conjE exE, goal_cases)
  case 1
  then show ?case by (intro exI [of _ "(l, False) # h"]) (auto simp: holds_def ordered_thread_ok split: if_splits)
next
  case (2 g)
  then show ?case by (intro exI [of _ g]) (auto simp: holds_def ordered_thread_ok split: if_splits)
next
  case (3 p)
  then show ?case by (intro exI [of _ h]) (auto simp: holds_def split: if_splits)
next
  case 4
  then show ?case by (intro exI [of _ "(l, True) # h"]) (auto simp: holds_def ordered_thread_ok split: if_splits)
next
  case (5 g)
  then show ?case by (intro exI [of _ g]) (auto simp: holds_def ordered_thread_ok split: if_splits)
qed

lemma lock_inv_step:
  assumes "lock_inv x" "lock_step x y"
  shows "lock_inv y"
  using assms(2)
proof cases
  case (lock_stepI i ts l op rest m r)
  obtain zs where zs: "ts = map snd zs" "list_all (\<lambda>(h, t). thread_ok h t) zs" "\<And>k. lock_counts zs k (m k)"
    using assms(1) by (auto simp: lock_inv_def lock_stepI(1))
  then have i: "i < length zs" using lock_stepI(3) by simp
  obtain h where z: "zs ! i = (h, (l, op) # rest)" using lock_stepI(4) i by (cases "zs ! i") (simp add: zs(1))
  have ok: "thread_ok h ((l, op) # rest)" using zs(2) i by (auto simp: list_all_length z dest!: spec [of _ i])
  have "holds l True (zs ! i) \<le> sum_list (map (holds l True) zs)" using i elem_le_sum_list [of i "map (holds l True) zs"] by simp
  then have le: "holds l True (h, (l, op) # rest) \<le> (if rw_writer (m l) then 1 else 0)"
    using zs(3) [of l] by (simp add: lock_counts_def z)
  obtain h' where h': "thread_ok h' rest"
      "rw_readers r + holds l False (h, (l, op) # rest) = rw_readers (m l) + holds l False (h', rest)"
      "rw_waiting r + waits l (h, (l, op) # rest) = rw_waiting (m l) + waits l (h', rest)"
      "(if rw_writer r then 1 else 0) + holds l True (h, (l, op) # rest) = (if rw_writer (m l) then 1 else 0) + holds l True (h', rest)"
      "rw_writer r \<longrightarrow> rw_readers r = 0"
      "\<And>k w. k \<noteq> l \<Longrightarrow> holds k w (h', rest) = holds k w (h, (l, op) # rest)"
      "\<And>k. k \<noteq> l \<Longrightarrow> waits k (h', rest) = waits k (h, (l, op) # rest)"
    using lock_op_thread [OF ok lock_stepI(5) le] zs(3) [of l] unfolding lock_counts_def by metis
  let ?zs = "zs[i := (h', rest)]"
  note upd = sum_list_upd [OF i, of _ "(h', rest)", unfolded z]
  have "lock_counts ?zs k ((m(l := r)) k)" for k
  proof (cases "k = l")
    case True
    have "rw_readers r = sum_list (map (holds l False) ?zs)" using upd [of "holds l False"] h'(2) zs(3) [of l] by (simp add: lock_counts_def)
    moreover have "rw_waiting r = sum_list (map (waits l) ?zs)" using upd [of "waits l"] h'(3) zs(3) [of l] by (simp add: lock_counts_def)
    moreover have "(if rw_writer r then 1 else 0) = sum_list (map (holds l True) ?zs)"
      using upd [of "holds l True"] h'(4) zs(3) [of l] unfolding lock_counts_def by linarith
    ultimately show ?thesis using h'(5) by (simp add: lock_counts_def True)
  next
    case False
    have "sum_list (map (holds k w) ?zs) = sum_list (map (holds k w) zs)" "sum_list (map (waits k) ?zs) = sum_list (map (waits k) zs)" for w
      using upd [of "holds k w"] upd [of "waits k"] h'(6) [OF False, of w] h'(7) [OF False] by linarith+
    then have "lock_counts ?zs k (m k) = lock_counts zs k (m k)" by (simp only: lock_counts_def)
    with zs(3) [of k] show ?thesis by (simp only: fun_upd_other [OF False])
  qed
  moreover have "list_all (\<lambda>(h, t). thread_ok h t) ?zs" using zs(2) i h'(1) by (auto simp: list_all_length nth_list_update)
  moreover have "ts[i := rest] = map snd ?zs" by (simp add: zs(1) map_update)
  ultimately show ?thesis unfolding lock_stepI(2) lock_inv_def fst_conv snd_conv by blast
qed

definition lock_start :: "lock_system \<Rightarrow> bool" where
  "lock_start x = (fst x = unlocked \<and> list_all lock_program (snd x))"

interpretation locks: inductive_invariant lock_start lock_step lock_inv
proof
  show "lock_inv x" if start: "lock_start x" for x
  proof -
    let ?zs = "map (Pair []) (snd x)"
    have o: "list_all (ordered []) (snd x)" using start by (auto simp: lock_start_def list_all_iff lock_program_ordered)
    have "list_all (\<lambda>(h, t). thread_ok h t) ?zs" using o by (auto simp: list_all_iff ordered_thread_ok)
    moreover have "sum_list (map (waits l) ?zs) = 0" for l using o by (induction "snd x" arbitrary: x) (auto simp: list_all_iff)
    moreover have "sum_list (map (holds l w) ?zs) = 0" for l w by (simp add: holds_def sum_list_eq_0_iff)
    ultimately have "\<forall>l. lock_counts ?zs l (fst x l)" using start by (simp add: lock_counts_def lock_start_def unlocked_def rw_new_def)
    with \<open>list_all _ ?zs\<close> show ?thesis unfolding lock_inv_def by (intro exI [of _ ?zs]) (simp add: comp_def)
  qed
  show "lock_inv x \<Longrightarrow> lock_step x y \<Longrightarrow> lock_inv y" for x y by (rule lock_inv_step)
qed

section \<open>Progress\<close>

text \<open>A state in which no goroutine can go on.\<close>

definition stuck :: "(mutex \<Rightarrow> rwmutex) \<Rightarrow> (held \<times> lock_code) list \<Rightarrow> bool" where
  "stuck m zs = (list_all (\<lambda>(h, t). thread_ok h t) zs \<and> (\<forall>l. lock_counts zs l (m l)) \<and>
     (\<forall>h l op p. (h, (l, op) # p) \<in> set zs \<longrightarrow> lockOp op (m l) = None))"

lemma stuckD:
  assumes "stuck m zs"
  shows "(h, t) \<in> set zs \<Longrightarrow> thread_ok h t" "lock_counts zs l (m l)" "(h, (l, op) # p) \<in> set zs \<Longrightarrow> lockOp op (m l) = None"
  using assms unfolding stuck_def list_all_iff by blast+

lemma stuck_next:
  assumes "stuck m zs" "(h, (l, op) # p) \<in> set zs"
  shows "(op = RLock \<or> op = LockGranted) \<and> below h (rank l)"
proof -
  have "holds l False (h, (l, op) # p) \<le> rw_readers (m l)" "holds l True (h, (l, op) # p) \<le> (if rw_writer (m l) then 1 else 0)"
    using assms(2) stuckD(2) [OF assms(1), of l] unfolding lock_counts_def by (simp_all only: member_le_sum_list image_eqI set_map)
  then show ?thesis using thread_ok_cases [OF stuckD(1) [OF assms]] stuckD(3) [OF assms]
    by (auto simp: holds_def split: if_splits)
qed

text \<open>The holder of a lock waits for a lock of higher rank.\<close>

lemma stuck_holder:
  assumes "stuck m zs" "0 < rw_readers (m l) \<or> rw_writer (m l)"
  shows "\<exists>h k op p. (h, (k, op) # p) \<in> set zs \<and> rank l < rank k"
proof -
  have "\<exists>w. 0 < sum_list (map (holds l w) zs)"
    using assms(2) stuckD(2) [OF assms(1), of l] unfolding lock_counts_def by (metis less_numeral_extra(1))
  then obtain w z where z: "z \<in> set zs" "0 < holds l w z" using sum_list_pos by blast
  then have l: "(l, w) \<in> set (fst z)" by (auto simp: holds_def count_list_0_iff intro: ccontr)
  have zz: "(fst z, snd z) \<in> set zs" using z(1) by simp
  have "snd z \<noteq> []" using stuckD(1) [OF assms(1) zz] l by auto
  then obtain k op p where "snd z = (k, op) # p" by (cases "snd z") auto
  then have "(fst z, (k, op) # p) \<in> set zs" using zz by simp
  then show ?thesis using stuck_next [OF assms(1)] l by (fastforce simp: below_def list_all_iff)
qed

lemma stuck_higher:
  assumes "stuck m zs" "(h, (l, op) # p) \<in> set zs"
  shows "\<exists>h' k op' p'. (h', (k, op') # p') \<in> set zs \<and> rank l < rank k"
proof (rule stuck_holder [OF assms(1)])
  note counts = stuckD(2) [OF assms(1), of l]
  have granted: "0 < rw_readers (m l) \<or> rw_writer (m l)" if w: "0 < rw_waiting (m l)"
  proof -
    from w obtain z where z: "z \<in> set zs" "0 < waits l z" using counts sum_list_pos [of "waits l" zs] by (auto simp: lock_counts_def)
    then obtain p' where "snd z = (l, LockGranted) # p'" by (cases "snd z") (auto simp: waits_def split: if_splits)
    then have "(fst z, (l, LockGranted) # p') \<in> set zs" using z(1) by (metis prod.collapse)
    from stuckD(3) [OF assms(1) this] w show ?thesis by (auto split: if_splits)
  qed
  from stuck_next [OF assms] show "0 < rw_readers (m l) \<or> rw_writer (m l)"
  proof (elim conjE disjE)
    assume "op = RLock"
    then show ?thesis using stuckD(3) [OF assms] granted by (auto split: if_splits)
  next
    assume "op = LockGranted"
    then have "0 < waits l (h, (l, op) # p)" by simp
    then have "0 < sum_list (map (waits l) zs)" using assms(2) member_le_sum_list [of "waits l (h, (l, op) # p)" "map (waits l) zs"] by force
    then show ?thesis using granted counts by (simp add: lock_counts_def)
  qed
qed

lemma stuck_done:
  assumes "stuck m zs"
  shows "list_all (\<lambda>z. snd z = []) zs"
proof (rule ccontr)
  assume "\<not> ?thesis"
  then obtain z where z: "z \<in> set zs" "snd z \<noteq> []" by (auto simp: list_all_iff)
  have "\<exists>h l op p. (h, (l, op) # p) \<in> set zs \<and> n \<le> rank l" for n
  proof (induction n)
    case 0
    obtain l op p where "snd z = (l, op) # p" using z(2) by (cases "snd z") auto
    then have "(fst z, (l, op) # p) \<in> set zs" using z(1) by (metis prod.collapse)
    then show ?case by blast
  next
    case (Suc n)
    then show ?case using stuck_higher [OF assms] by (meson Suc_leI le_less_trans)
  qed
  from this [of 4] obtain l where "4 \<le> rank l" by blast
  then show False by (cases l) auto
qed

lemma lock_progress:
  assumes "lock_inv x" "\<not> all_done x"
  shows "\<exists>y. lock_step x y"
proof (rule ccontr)
  assume none: "\<nexists>y. lock_step x y"
  obtain m zs where x: "x = (m, map snd zs)" "list_all (\<lambda>(h, t). thread_ok h t) zs" "\<And>k. lock_counts zs k (m k)"
    using assms(1) by (cases x) (auto simp: lock_inv_def)
  have "lockOp op (m l) = None" if z: "(h, (l, op) # p) \<in> set zs" for h l op p
  proof (rule ccontr)
    assume "lockOp op (m l) \<noteq> None"
    then obtain r where r: "lockOp op (m l) = Some r" by blast
    obtain i where "i < length zs" "zs ! i = (h, (l, op) # p)" using z by (metis in_set_conv_nth)
    then show False using lock_stepI [of i "map snd zs" l op p m r] r none x(1) by auto
  qed
  then have "stuck m zs" using x(2,3) unfolding stuck_def by blast
  from stuck_done [OF this] assms(2) show False by (auto simp: all_done_def x(1) list_all_iff)
qed

text \<open>Every step takes an operation away, so the goroutines get to their end.\<close>

lemma lock_step_length: "lock_step x y \<Longrightarrow> sum_list (map length (snd y)) < sum_list (map length (snd x))"
proof (induction rule: lock_step.induct)
  case (lock_stepI i ts l op rest m r)
  then show ?case using sum_list_upd [of i ts length rest] by simp
qed

lemma lock_completes: "lock_inv x \<Longrightarrow> \<exists>y. lock_step\<^sup>*\<^sup>* x y \<and> all_done y"
proof (induction "sum_list (map length (snd x))" arbitrary: x rule: less_induct)
  case less
  show ?case
  proof (cases "all_done x")
    case False
    from lock_progress [OF less.prems False] obtain y where y: "lock_step x y" by blast
    then obtain z where "lock_step\<^sup>*\<^sup>* y z" "all_done z"
      using less.hyps [OF lock_step_length [OF y] lock_inv_step [OF less.prems y]] by blast
    with y show ?thesis by (meson converse_rtranclp_into_rtranclp)
  qed blast
qed

section \<open>Properties\<close>

text \<open>
  C16. Goroutines that run the functions of the proxy never block each other for good on its locks,
  however many there are, whatever they run (only the two functions that nest the lock of a stream are
  left out) and in whatever order they get to run: from every state that they can reach they can all get
  to their end, and as long as one is left, one of them can go on. A writer of a lock is always alone.
\<close>

theorem lock_order_progress:
  assumes "list_all lock_program programs" "reach (\<lambda>x. x = (unlocked, programs)) lock_step x"
  shows "(\<exists>y. lock_step\<^sup>*\<^sup>* x y \<and> all_done y) \<and> (\<not> all_done x \<longrightarrow> (\<exists>y. lock_step x y)) \<and>
    (\<forall>l. rw_writer (fst x l) \<longrightarrow> rw_readers (fst x l) = 0)"
proof -
  from assms(2) have "reach lock_start lock_step x"
  proof (induction rule: reach.induct)
    case (reach_init x)
    then show ?case using assms(1) by (intro reach.reach_init) (simp add: lock_start_def)
  next
    case (reach_step x y)
    from reach_step.IH reach_step.hyps(2) show ?case by (rule reach.reach_step)
  qed
  then have inv: "lock_inv x" by (rule locks.reach_inv)
  then have "\<forall>l. rw_writer (fst x l) \<longrightarrow> rw_readers (fst x l) = 0" unfolding lock_inv_def lock_counts_def by blast
  with lock_completes [OF inv] lock_progress [OF inv] show ?thesis by blast
qed

theorem lock_order_progress_witness:
  "\<exists>y. lock_step\<^sup>*\<^sup>* (unlocked, [RemoveClient_locks 0 (Some 1), SetupUpstream_locks 0 2 [False] [(3, Some 4)], dispatch_locks 0 @ GetBitrate_locks 0]) y \<and>
     all_done y"
proof -
  have "list_all lock_program [RemoveClient_locks 0 (Some 1), SetupUpstream_locks 0 2 [False] [(3, Some 4)], dispatch_locks 0 @ GetBitrate_locks 0]"
    by (simp add: lock_program.intros)
  from lock_order_progress [OF this] show ?thesis by (blast intro: reach.reach_init)
qed

lemma reach_lock:
  "reach init lock_step (m, ts) \<Longrightarrow> i < length ts \<Longrightarrow> ts ! i = (l, op) # rest \<Longrightarrow> lockOp op (m l) = Some r \<Longrightarrow>
   reach init lock_step (m(l := r), ts[i := rest])"
  using lock_stepI [of i ts l op rest m r] reach_step [of init lock_step "(m, ts)"] by blast

definition deadlocks :: "lock_code list \<Rightarrow> bool" where
  "deadlocks programs =
     (\<exists>x. reach (\<lambda>x. x = (unlocked, programs)) lock_step x \<and> \<not> all_done x \<and> (\<forall>y. \<not> lock_step x y))"

lemma nested_blocks:
  assumes "nested = (StreamMu s, RLock) # (StreamMu s, RLock) # rest"
  shows "deadlocks [nested, dispatch_locks s]"
proof -
  let ?l = "StreamMu s"
  let ?R = "reach (\<lambda>x. x = (unlocked, [nested, dispatch_locks s])) lock_step"
  let ?r = "\<lparr> rw_readers = 1, rw_waiting = 1, rw_writer = False \<rparr>"
  let ?ts = "[(?l, RLock) # rest, [(?l, LockGranted), (?l, Unlock)]]"
  have "?R (unlocked, [nested, dispatch_locks s])" by (rule reach_init) simp
  from reach_lock [OF this, of 0 ?l RLock] have "?R (unlocked(?l := rw_new\<lparr>rw_readers := 1\<rparr>), [(?l, RLock) # rest, dispatch_locks s])"
    by (simp add: assms unlocked_def rw_new_def)
  from reach_lock [OF this, of 1 ?l LockCalled] have r: "?R (unlocked(?l := ?r), ?ts)"
    by (simp add: dispatch_locks_def rw_new_def)
  have "\<not> lock_step (unlocked(?l := ?r), ?ts) y" for y
    by (auto elim!: lock_step.cases simp: less_Suc_eq)
  moreover have "\<not> all_done (unlocked(?l := ?r), ?ts)" by (simp add: all_done_def)
  ultimately show ?thesis using r unfolding deadlocks_def by blast
qed

text \<open>
  C17. The lookup of a transport for a SETUP and the periodic report take the read lock of the stream a
  second time while they hold it. When the read loop dispatches a packet in between, it waits for the
  first read lock and the second read lock waits for it: neither goroutine can go on any more.
\<close>

theorem nested_read_locks_deadlock:
  "deadlocks [Stream_LookupTransport_locks s visited, dispatch_locks s] \<and> deadlocks [ReportMetrics_locks s, dispatch_locks s]"
  using nested_blocks [of "Stream_LookupTransport_locks s visited"] nested_blocks [of "ReportMetrics_locks s"]
  by (simp add: Stream_LookupTransport_locks_def ReportMetrics_locks_def Remote_LookupTransport_locks_def GetBitrate_locks_def)

end
