(* ===== verification/Stream_Report.thy ===== *)
theory Stream_Report
  imports Complex_Main Rtsp_Fanout Stream_Manager "HOL-Library.Log_Nat"
begin

text \<open>
  The periodic report: \<open>Stream.GetBitrate\<close>, \<open>Stream.ReportMetrics\<close> (\<open>stream.go\<close>) and
  \<open>StreamManager.metricsLoop\<close> (\<open>stream_manager.go\<close>). The bitrate is computed in floating-point numbers, which
  are rationals here, rounded to 53 significant bits after every operation. The property says how far
  the bitrate can be from the exact quotient.
\<close>

section \<open>Floating-point numbers\<close>

text \<open>
  A \<open>float64\<close> is a rational. The numbers of the report are zero or between \<open>2 ^ - 30\<close> and \<open>2 ^ 65\<close>, far from
  the ends of the range, so an operation gives the exact result rounded to a significand of 53 bits,
  to the nearest one and to the even one in the middle.
\<close>

definition roundEven :: "rat \<Rightarrow> int" where
  "roundEven y =
     (let q = \<lfloor>y\<rfloor>; r = y - of_int q
      in if r < 1 / 2 \<or> (r = 1 / 2 \<and> even q) then q else q + 1)"

text \<open>The exponent of the last place of a positive number.\<close>

definition lastPlace :: "rat \<Rightarrow> int" where
  "lastPlace x =
     (case quotient_of x of (n, d) \<Rightarrow>
        let k = bitlen n - bitlen d
        in if x < 2 powi k then k - 53 else k - 52)"

definition float64 :: "rat \<Rightarrow> rat" where
  "float64 x =
     (if x = 0 then 0
      else let e = lastPlace \<bar>x\<bar> in sgn x * of_int (roundEven (\<bar>x\<bar> / 2 powi e)) * 2 powi e)"

text \<open>\<open>uint64(x)\<close>; what it gives when the number does not fit is up to the machine.\<close>

definition toUint64 :: "(rat \<Rightarrow> 64 word) \<Rightarrow> rat \<Rightarrow> 64 word" where
  "toUint64 machine x = (if 0 \<le> x \<and> x < 2 ^ 64 then of_int \<lfloor>x\<rfloor> else machine x)"

text \<open>\<open>Duration.Seconds\<close>: the whole seconds and the nanoseconds, with the quotient rounded to zero.\<close>

definition Seconds :: "int \<Rightarrow> rat" where
  "Seconds d =
     (let sec = sgn d * (\<bar>d\<bar> div 1000000000); nsec = sgn d * (\<bar>d\<bar> mod 1000000000)
      in float64 (float64 (of_int sec) + float64 (float64 (of_int nsec) / 1000000000)))"

section \<open>The report\<close>

text \<open>\<open>GetBitrate\<close>: the multiplication by eight wraps.\<close>

definition sessionStart :: "stream \<Rightarrow> int" where
  "sessionStart s = (case st_SessionStartTime s of None \<Rightarrow> st_StartTime s | Some t \<Rightarrow> t)"

definition GetBitrate :: "(rat \<Rightarrow> 64 word) \<Rightarrow> int \<Rightarrow> stream \<Rightarrow> 64 word" where
  "GetBitrate machine now s =
     (let elapsed = Seconds (now - sessionStart s)
      in if elapsed < 1 then 0
         else toUint64 machine (float64 (float64 (of_nat (unat (st_SessionBytesForwarded s * 8))) / elapsed)))"

text \<open>\<open>Duration.String\<close>: the fraction without its trailing zeros, and the units.\<close>

definition fmtFrac :: "int \<Rightarrow> nat \<Rightarrow> string" where
  "fmtFrac v prec =
     (let digits = map (\<lambda>i. digit_char (nat (v div 10 ^ (prec - 1 - i) mod 10))) [0..<prec];
          kept = rev (dropWhile (\<lambda>c. c = CHR ''0'') (rev digits))
      in if kept = [] then [] else CHR ''.'' # kept)"

definition durationString :: "int \<Rightarrow> string" where
  "durationString d =
     (let u = \<bar>d\<bar>;
          unit = (\<lambda>prec. itoa (u div 10 ^ prec) @ fmtFrac (u mod 10 ^ prec) prec);
          text =
            (if u = 0 then ''0s''
             else if u < 1000 then unit 0 @ ''ns''
             else if u < 1000000 then unit 3 @ [CHR 0xC2, CHR 0xB5, CHR ''s'']
             else if u < 1000000000 then unit 6 @ ''ms''
             else
               (let sec = u div 1000000000; minutes = sec div 60; hours = minutes div 60
                in (if 0 < hours then itoa hours @ ''h'' else []) @
                   (if 0 < minutes then itoa (minutes mod 60) @ ''m'' else []) @
                   itoa (sec mod 60) @ fmtFrac (u mod 1000000000) 9 @ ''s''))
      in if d < 0 then CHR ''-'' # text else text)"

text \<open>\<open>Truncate(time.Millisecond)\<close>.\<close>

definition truncateMs :: "int \<Rightarrow> int" where
  "truncateMs d = sgn d * (\<bar>d\<bar> - \<bar>d\<bar> mod 1000000)"

text \<open>\<open>%.1f\<close> of a duration in seconds.\<close>

definition fixed1 :: "rat \<Rightarrow> string" where
  "fixed1 x = (if x < 0 then CHR ''-'' # tenths (nat (roundEven (10 * - x))) else tenths (nat (roundEven (10 * x))))"

definition reportLines :: "(rat \<Rightarrow> 64 word) \<Rightarrow> int \<Rightarrow> stream \<Rightarrow> string list" where
  "reportLines machine now s =
     [[CHR 0xF0, CHR 0x9F, CHR 0x93, CHR 0x8A] @ '' Stream ['' @ st_Path s @ ''] Metrics:'',
      ''  State: '' @ stateString (st_state s),
      ''  Clients: '' @ nat_dec (length (st_clients s)),
      ''  Reconnects: '' @ utoa (st_ReconnectCount s) @ '' (Total Downtime: '' @ durationString (st_ReconnectTotal s) @ '')'',
      ''  Packets (Fwd/Drop): '' @ utoa (st_PacketsForwarded s) @ '' / '' @ utoa (st_PacketsDropped s),
      ''  Throughput: '' @ utoa (st_BytesForwarded s) @ '' bytes (Avg '' @ utoa (GetBitrate machine now s) @ '' bps)'',
      ''  Avg Queue Depth: '' @ nat_dec (avgQueue s),
      ''  Uptime: '' @ fixed1 (Seconds (now - st_StartTime s)) @ ''s''] @
     (case st_LastPktTime s of
        None \<Rightarrow> []
      | Some t \<Rightarrow> [''  Last Packet: '' @ durationString (truncateMs (now - t)) @ '' ago''])"

definition ReportMetrics :: "(rat \<Rightarrow> 64 word) \<Rightarrow> int \<Rightarrow> stream \<Rightarrow> logger \<Rightarrow> logger" where
  "ReportMetrics machine now s l = fold Logf (reportLines machine now s) l"

text \<open>
  A turn of \<open>metricsLoop\<close>: the context of the server is done and the loop returns (\<open>None\<close>), or the ticker has
  fired.
\<close>

definition registered :: "manager \<Rightarrow> stream list" where
  "registered m = List.map_filter (\<lambda>(key, n). getStream n m) (sm_streams m)"

definition metricsLoop :: "(rat \<Rightarrow> 64 word) \<Rightarrow> int \<Rightarrow> bool \<Rightarrow> manager \<Rightarrow> logger \<Rightarrow> logger option" where
  "metricsLoop machine now serverDone m l =
     (if serverDone then None
      else Some
        (let streams = registered m
         in if streams = [] then l
            else Logf ''-------------------------------''
                   (fold (ReportMetrics machine now) streams
                     (Logf (''Active Streams: '' @ nat_dec (length streams))
                       (Logf ([CHR 0xF0, CHR 0x9F, CHR 0x93, CHR 0x88] @ '' --- Global Proxy Metrics ---'') l)))))"

lemma durationString_examples:
  "durationString 5025000000000 = ''1h23m45s''" "durationString 1500000000 = ''1.5s''" "durationString 120000000000 = ''2m0s''"
  "durationString 2500000 = ''2.5ms''" "durationString 999 = ''999ns''" "durationString (- 1050000000) = ''-1.05s''"
  by code_simp+

text \<open>The report covers every stream of the registry, and counts as many as the gauge of active streams.\<close>

lemma registered_length:
  assumes "manager_inv m"
  shows "length (registered m) = length (sm_streams m)"
proof -
  have "getStream n m \<noteq> None" if "(key, n) \<in> set (sm_streams m)" for key n
  proof -
    have "mget (sm_streams m) key = Some n" using assms that by (simp add: manager_inv_def)
    then show ?thesis using assms by (fastforce simp: manager_inv_def getStream_def)
  qed
  then have "filter (\<lambda>x. (case x of (key, n) \<Rightarrow> getStream n m) \<noteq> None) (sm_streams m) = sm_streams m" by (intro filter_True) auto
  then show ?thesis by (simp add: registered_def List.map_filter_def comp_def)
qed

lemma report_gauge: "manager_inv m \<Longrightarrow> m_ActiveStreams (sm_metrics m) = wrap64 (int (length (registered m)))"
  by (simp add: registered_length manager_inv_def)

section \<open>Rounding\<close>

lemma roundEven_error: "\<bar>of_int (roundEven y) - y\<bar> \<le> 1 / 2" "\<lfloor>y\<rfloor> \<le> roundEven y"
proof -
  have "of_int \<lfloor>y\<rfloor> \<le> y" "y < of_int \<lfloor>y\<rfloor> + 1" by linarith+
  then show "\<bar>of_int (roundEven y) - y\<bar> \<le> 1 / 2" "\<lfloor>y\<rfloor> \<le> roundEven y"
    by (auto simp: roundEven_def Let_def abs_le_iff)
qed

lemma powi_nat: "2 powi int n = (2 :: rat) ^ n"
  by (simp add: power_int_def)

lemma lastPlace_le:
  assumes "0 < x"
  shows "2 ^ 52 * 2 powi lastPlace x \<le> x"
proof -
  obtain n d where q: "quotient_of x = (n, d)" by (cases "quotient_of x")
  have d: "0 < d" "x = of_int n / of_int d" using quotient_of_denom_pos [OF q] quotient_of_div [OF q] by simp_all
  then have n: "0 < n" using assms by (simp add: zero_less_divide_iff)
  define a b where ab: "a = bitlen n" "b = bitlen d"
  have "1 \<le> bitlen z" if "0 < z" for z using bitlen_bounds [OF that] that by (cases "1 \<le> bitlen z") auto
  then have a: "1 \<le> a" "1 \<le> b" using n d(1) ab by simp_all
  have "(2 :: int) ^ nat (a - 1) \<le> n" "d < 2 ^ nat b" using bitlen_bounds [OF n] bitlen_bounds [OF d(1)] ab by simp_all
  then have "of_int (2 ^ nat (a - 1)) \<le> (of_int n :: rat)" "(of_int d :: rat) \<le> of_int (2 ^ nat b)"
    unfolding of_int_le_iff by simp_all
  then have r: "(2 :: rat) powi (a - 1) \<le> of_int n" "of_int d \<le> (2 :: rat) powi b" using a by (simp_all add: power_int_def)
  have "(2 :: rat) powi (a - b - 1) = 2 powi (a - 1) / 2 powi b" by (simp add: power_int_diff [symmetric] algebra_simps)
  also have "\<dots> \<le> of_int n / of_int d" using r d(1) n by (intro frac_le) auto
  finally have "(2 :: rat) powi (a - b - 1) \<le> x" using d(2) by simp
  moreover have "2 ^ 52 * 2 powi lastPlace x = (2 :: rat) powi (lastPlace x + 52)"
    by (simp add: power_int_add powi_nat [of 52, simplified])
  ultimately show ?thesis by (auto simp: lastPlace_def q Let_def ab [symmetric] algebra_simps)
qed

lemma float64_error:
  assumes "0 \<le> x"
  shows "\<bar>float64 x - x\<bar> \<le> x / 2 ^ 53"
proof (cases "x = 0")
  case False
  define u where "u = (2 :: rat) powi lastPlace x"
  have u: "0 < u" "2 ^ 52 * u \<le> x" using lastPlace_le [of x] assms False by (simp_all add: u_def)
  have "float64 x = of_int (roundEven (x / u)) * u" using assms False by (simp add: float64_def u_def Let_def)
  then have "float64 x - x = (of_int (roundEven (x / u)) - x / u) * u" using u(1) by (simp add: algebra_simps)
  then have "\<bar>float64 x - x\<bar> = \<bar>of_int (roundEven (x / u)) - x / u\<bar> * u" using u(1) by (simp add: abs_mult)
  also have "\<dots> \<le> 1 / 2 * u" using roundEven_error(1) [of "x / u"] u(1) by (intro mult_right_mono) auto
  finally show ?thesis using u(2) by (simp add: field_simps)
qed (simp add: float64_def)

lemma float64_le: "0 \<le> x \<Longrightarrow> float64 x \<le> x * (1 + 1 / 2 ^ 53)"
  and float64_ge: "0 \<le> x \<Longrightarrow> x * (1 - 1 / 2 ^ 53) \<le> float64 x"
proof -
  assume "0 \<le> x"
  from float64_error [OF this] have "float64 x - x \<le> x / 2 ^ 53" "x - float64 x \<le> x / 2 ^ 53" by linarith+
  then show "float64 x \<le> x * (1 + 1 / 2 ^ 53)" "x * (1 - 1 / 2 ^ 53) \<le> float64 x" by (simp_all add: algebra_simps)
qed

lemma float64_nonneg: "0 \<le> x \<Longrightarrow> 0 \<le> float64 x"
  using float64_ge [of x] by (rule order_trans [rotated]) auto

text \<open>One is a number that the rounding does not pass.\<close>

lemma float64_ge_one:
  assumes "1 \<le> x"
  shows "1 \<le> float64 x"
proof -
  define e where "e = lastPlace x"
  have f: "float64 x = of_int (roundEven (x / 2 powi e)) * 2 powi e" using assms by (simp add: float64_def e_def Let_def)
  have le: "2 ^ 52 * 2 powi e \<le> x" using lastPlace_le [of x] assms by (simp add: e_def)
  have "\<exists>k :: int. of_int k \<le> x / 2 powi e \<and> 1 \<le> of_int k * (2 :: rat) powi e"
  proof (cases "0 \<le> e")
    case True
    have "1 \<le> (2 :: rat) powi e" using True by (simp add: power_int_def)
    moreover have "of_int (2 ^ 52) \<le> x / 2 powi e" using le by (simp add: field_simps)
    ultimately show ?thesis by (intro exI [of _ "2 ^ 52"]) simp
  next
    case False
    then have k: "of_int (2 ^ nat (- e)) = 1 / (2 :: rat) powi e" by (simp add: power_int_def field_simps)
    then show ?thesis using assms by (intro exI [of _ "2 ^ nat (- e)"]) (simp only: k, simp add: divide_right_mono)
  qed
  then obtain k :: int where k: "of_int k \<le> x / 2 powi e" "1 \<le> of_int k * (2 :: rat) powi e" by blast
  have "k \<le> roundEven (x / 2 powi e)" using k(1) roundEven_error(2) [of "x / 2 powi e"] le_floor_iff [of k] by (meson order_trans)
  then have "of_int k * 2 powi e \<le> float64 x" unfolding f by (intro mult_right_mono) simp_all
  with k(2) show ?thesis by linarith
qed

section \<open>The elapsed time\<close>

lemma two_roundings:
  assumes "0 \<le> x" "0 < c"
  shows "float64 (float64 x / c) \<le> x / c * (1 + 1 / 2 ^ 53) ^ 2" "x / c * (1 - 1 / 2 ^ 53) ^ 2 \<le> float64 (float64 x / c)"
proof -
  have "float64 (float64 x / c) \<le> float64 x / c * (1 + 1 / 2 ^ 53)" using assms(2) float64_nonneg [OF assms(1)] by (intro float64_le) simp
  also have "\<dots> \<le> x * (1 + 1 / 2 ^ 53) / c * (1 + 1 / 2 ^ 53)" using float64_le [OF assms(1)] assms(2) by (intro mult_right_mono divide_right_mono) auto
  finally show "float64 (float64 x / c) \<le> x / c * (1 + 1 / 2 ^ 53) ^ 2" by (simp add: power2_eq_square)
  have "x * (1 - 1 / 2 ^ 53) / c * (1 - 1 / 2 ^ 53) \<le> float64 x / c * (1 - 1 / 2 ^ 53)"
    using float64_ge [OF assms(1)] assms(2) by (intro mult_right_mono divide_right_mono) auto
  also have "\<dots> \<le> float64 (float64 x / c)" using assms(2) float64_nonneg [OF assms(1)] by (intro float64_ge) simp
  finally show "x / c * (1 - 1 / 2 ^ 53) ^ 2 \<le> float64 (float64 x / c)" by (simp add: power2_eq_square)
qed

lemma Seconds_bounds:
  assumes "0 \<le> d"
  shows "Seconds d \<le> of_int d / 1000000000 * (1 + 1 / 2 ^ 51)" "of_int d / 1000000000 * (1 - 1 / 2 ^ 51) \<le> Seconds d"
    "1000000000 \<le> d \<Longrightarrow> 1 \<le> Seconds d"
proof -
  define sec nsec where parts: "sec = d div 1000000000" "nsec = d mod 1000000000"
  have nn: "0 \<le> sec" "0 \<le> nsec" using assms by (simp_all add: parts pos_imp_zdiv_nonneg_iff)
  have "d = sec * 1000000000 + nsec" unfolding parts by simp
  then have d: "(of_int d :: rat) / 1000000000 = of_int sec + of_int nsec / 1000000000" by (simp add: add_divide_distrib)
  define y where "y = float64 (of_int nsec) / 1000000000"
  have S: "Seconds d = float64 (float64 (of_int sec) + float64 y)"
    using assms by (cases "d = 0") (simp_all add: Seconds_def parts y_def Let_def)
  have y: "float64 y \<le> of_int nsec / 1000000000 * (1 + 1 / 2 ^ 53) ^ 2" "of_int nsec / 1000000000 * (1 - 1 / 2 ^ 53) ^ 2 \<le> float64 y"
    using two_roundings [of "of_int nsec" 1000000000] nn by (simp_all add: y_def)
  have s: "float64 (of_int sec) \<le> of_int sec * (1 + 1 / 2 ^ 53)" "of_int sec * (1 - 1 / 2 ^ 53) \<le> float64 (of_int sec)"
    using float64_le [of "of_int sec"] float64_ge [of "of_int sec"] nn by simp_all
  have pos: "0 \<le> float64 (of_int sec) + float64 y"
    using nn by (simp add: y_def float64_nonneg)
  define a b where ab: "a = (of_int sec :: rat)" "b = (of_int nsec :: rat) / 1000000000"
  have nab: "0 \<le> a" "0 \<le> b" using nn by (simp_all add: ab)
  have "Seconds d \<le> (float64 (of_int sec) + float64 y) * (1 + 1 / 2 ^ 53)" unfolding S using pos by (rule float64_le)
  also have "\<dots> \<le> (a * (1 + 1 / 2 ^ 53) + b * (1 + 1 / 2 ^ 53) ^ 2) * (1 + 1 / 2 ^ 53)"
    using y(1) s(1) unfolding ab by (intro mult_right_mono add_mono) auto
  also have "\<dots> \<le> (a + b) * (1 + 1 / 2 ^ 51)" using nab by (simp add: field_simps power2_eq_square)
  finally show "Seconds d \<le> of_int d / 1000000000 * (1 + 1 / 2 ^ 51)" by (simp add: d ab)
  have "(a + b) * (1 - 1 / 2 ^ 51) \<le> (a * (1 - 1 / 2 ^ 53) + b * (1 - 1 / 2 ^ 53) ^ 2) * (1 - 1 / 2 ^ 53)"
    using nab by (simp add: field_simps power2_eq_square)
  also have "\<dots> \<le> (float64 (of_int sec) + float64 y) * (1 - 1 / 2 ^ 53)"
    using y(2) s(2) unfolding ab by (intro mult_right_mono add_mono) auto
  also have "\<dots> \<le> Seconds d" unfolding S using pos by (rule float64_ge)
  finally show "of_int d / 1000000000 * (1 - 1 / 2 ^ 51) \<le> Seconds d" by (simp add: d ab)
  show "1 \<le> Seconds d" if "1000000000 \<le> d"
  proof -
    have "1 \<le> sec" using that unfolding parts by simp
    then have "1 \<le> float64 (of_int sec)" by (intro float64_ge_one) simp
    moreover have "0 \<le> float64 y" using nn by (simp add: y_def float64_nonneg)
    ultimately show ?thesis unfolding S by (intro float64_ge_one) simp
  qed
qed

lemma float64_minus: "float64 (- x) = - float64 x"
  by (simp add: float64_def Let_def sgn_minus)

lemma Seconds_minus: "Seconds (- d) = - Seconds d"
proof -
  have "float64 (- a + - b) = - float64 (a + b)" for a b using float64_minus [of "a + b"] by simp
  then show ?thesis by (simp add: Seconds_def Let_def sgn_minus float64_minus)
qed

lemma Seconds_less_one: "d < 1000000000 \<Longrightarrow> Seconds d < 1"
proof (cases "0 \<le> d")
  case True
  assume "d < 1000000000"
  then have "(of_int d :: rat) \<le> 999999999" using of_int_le_iff [of d 999999999, where ?'a = rat] by simp
  then have "of_int d / 1000000000 * (1 + 1 / 2 ^ 51) \<le> (999999999 / 1000000000 * (1 + 1 / 2 ^ 51) :: rat)"
    by (intro mult_right_mono divide_right_mono) auto
  also have "\<dots> < 1" by simp
  finally show ?thesis using Seconds_bounds(1) [OF True] by linarith
next
  case False
  have "0 \<le> of_int (- d) / 1000000000 * (1 - 1 / 2 ^ 51 :: rat)" using False by (intro mult_nonneg_nonneg divide_nonneg_nonneg) simp_all
  then have "0 \<le> Seconds (- d)" using Seconds_bounds(2) [of "- d"] False by simp
  then show ?thesis by (simp add: Seconds_minus)
qed

text \<open>The rounded quotient of two rounded numbers.\<close>

lemma quotient_error:
  assumes "0 \<le> b" "0 < t" "t * (1 - 1 / 2 ^ 51) \<le> el" "el \<le> t * (1 + 1 / 2 ^ 51)" "0 < el"
  shows "\<bar>float64 (float64 b / el) - b / t\<bar> \<le> b / t / 2 ^ 50"
proof -
  have "float64 (float64 b / el) \<le> b / el * (1 + 1 / 2 ^ 53) ^ 2" by (rule two_roundings [OF assms(1,5)])
  also have "\<dots> \<le> b / (t * (1 - 1 / 2 ^ 51)) * (1 + 1 / 2 ^ 53) ^ 2" using assms by (intro mult_right_mono divide_left_mono mult_pos_pos) auto
  also have "\<dots> = b / t * ((1 + 1 / 2 ^ 53) ^ 2 / (1 - 1 / 2 ^ 51))" by simp
  also have "\<dots> \<le> b / t * (1 + 1 / 2 ^ 50)" using assms(1,2) by (intro mult_left_mono) (simp_all add: power2_eq_square)
  finally have up: "float64 (float64 b / el) \<le> b / t * (1 + 1 / 2 ^ 50)" .
  have "b / t * (1 - 1 / 2 ^ 50) \<le> b / t * ((1 - 1 / 2 ^ 53) ^ 2 / (1 + 1 / 2 ^ 51))" using assms(1,2) by (intro mult_left_mono) (simp_all add: power2_eq_square)
  also have "\<dots> = b / (t * (1 + 1 / 2 ^ 51)) * (1 - 1 / 2 ^ 53) ^ 2" by simp
  also have "\<dots> \<le> b / el * (1 - 1 / 2 ^ 53) ^ 2" using assms by (intro mult_right_mono divide_left_mono mult_pos_pos) auto
  also have "\<dots> \<le> float64 (float64 b / el)" by (rule two_roundings [OF assms(1,5)])
  finally have low: "b / t * (1 - 1 / 2 ^ 50) \<le> float64 (float64 b / el)" .
  show ?thesis using up low unfolding abs_le_iff distrib_left right_diff_distrib by simp
qed

section \<open>Properties\<close>

text \<open>
  C40. The bitrate that is reported: zero in the first second of a session, and afterwards, as long as
  the session has forwarded less than an exabyte, the eightfold number of bytes divided by the seconds
  since the session began, up to one bit per second and a relative error of one in \<open>2 ^ 50\<close>, in spite of
  five rounded operations.
\<close>

theorem GetBitrate_accurate:
  "(now - sessionStart s < 1000000000 \<longrightarrow> GetBitrate machine now s = 0) \<and>
   (1000000000 \<le> now - sessionStart s \<and> unat (st_SessionBytesForwarded s) < 2 ^ 60 \<longrightarrow>
    (let exact = of_nat (8 * unat (st_SessionBytesForwarded s)) / (of_int (now - sessionStart s) / 1000000000)
     in \<bar>of_nat (unat (GetBitrate machine now s)) - exact\<bar> \<le> 1 + exact / (2 ^ 50 :: rat)))"
proof (intro conjI impI)
  assume "now - sessionStart s < 1000000000"
  then show "GetBitrate machine now s = 0" using Seconds_less_one by (simp add: GetBitrate_def Let_def)
next
  assume a: "1000000000 \<le> now - sessionStart s \<and> unat (st_SessionBytesForwarded s) < 2 ^ 60"
  define d n where dn: "d = now - sessionStart s" "n = unat (st_SessionBytesForwarded s)"
  define b t where bt: "b = (of_nat (8 * n) :: rat)" "t = (of_int d :: rat) / 1000000000"
  have d: "1000000000 \<le> d" "n < 2 ^ 60" using a by (simp_all add: dn)
  have "(1000000000 :: rat) \<le> of_int d" using of_int_le_iff [of 1000000000 d, where ?'a = rat] d(1) by simp
  then have t: "1 \<le> t" by (simp add: bt)
  have b: "0 \<le> b" "b \<le> 2 ^ 63" using of_nat_mono [of "8 * n" "2 ^ 63", where ?'a = rat] d(2) by (simp_all add: bt)
  define q where "q = float64 (float64 b / Seconds d)"
  have el: "1 \<le> Seconds d" using Seconds_bounds(3) [of d] d(1) by simp
  have q: "\<bar>q - b / t\<bar> \<le> b / t / 2 ^ 50"
    unfolding q_def using Seconds_bounds(1,2) [of d] d(1) t b el by (intro quotient_error) (auto simp: bt)
  have bt': "0 \<le> b / t" "b / t \<le> 2 ^ 63" using b t by (simp_all add: divide_le_eq)
  then have "b / t / 2 ^ 50 \<le> b / t" "b / t / 2 ^ 50 \<le> 2 ^ 13" by simp_all
  then have "0 \<le> q" "q \<le> 2 ^ 63 + 2 ^ 13" using q bt' unfolding abs_le_iff by linarith+
  moreover have "(2 ^ 63 + 2 ^ 13 :: rat) < 2 ^ 64" by simp
  ultimately have r: "0 \<le> q" "q < 2 ^ 64" by linarith+
  have "unat (st_SessionBytesForwarded s * 8) = 8 * n" using d(2) unfolding dn by (simp add: unat_word_ariths)
  then have g: "GetBitrate machine now s = of_int \<lfloor>q\<rfloor>" using el r by (simp add: GetBitrate_def Let_def toUint64_def q_def bt dn)
  have "0 \<le> \<lfloor>q\<rfloor>" "\<lfloor>q\<rfloor> < 2 ^ 64" using r by (simp_all add: floor_less_iff)
  then have "uint (GetBitrate machine now s) = \<lfloor>q\<rfloor>" unfolding g uint_word_of_int_eq by (intro take_bit_int_eq_self) simp_all
  then have "int (unat (GetBitrate machine now s)) = \<lfloor>q\<rfloor>" by simp
  then have "(of_nat (unat (GetBitrate machine now s)) :: rat) = of_int \<lfloor>q\<rfloor>" by (metis of_int_of_nat_eq)
  moreover have "of_int \<lfloor>q\<rfloor> \<le> q" "q < of_int \<lfloor>q\<rfloor> + 1" by linarith+
  ultimately show "let exact = of_nat (8 * unat (st_SessionBytesForwarded s)) / (of_int (now - sessionStart s) / 1000000000)
      in \<bar>of_nat (unat (GetBitrate machine now s)) - exact\<bar> \<le> 1 + exact / (2 ^ 50 :: rat)"
    using q unfolding Let_def dn [symmetric] bt [symmetric] by linarith
qed

theorem GetBitrate_accurate_witness:
  "\<bar>of_nat (unat (GetBitrate (\<lambda>x. 0) 3000000000 ((NewStream DefaultConfig 0 ''cam'' [] [] ''/'')\<lparr>st_SessionBytesForwarded := 750000\<rparr>))) - 2000000\<bar>
     \<le> 1 + 2000000 / (2 ^ 50 :: rat)"
  using GetBitrate_accurate [of 3000000000 "(NewStream DefaultConfig 0 ''cam'' [] [] ''/'')\<lparr>st_SessionBytesForwarded := 750000\<rparr>" "\<lambda>x. 0"]
  by (simp add: sessionStart_def NewStream_def Let_def)

end
