(* ===== verification/Digest_Example.thy ===== *)
theory Digest_Example
  imports Digest_Auth
begin

text \<open>
  Published test vectors of the models of MD5 (RFC 1321, appendix A.5) and of the Digest
  computation (RFC 2617, section 3.5), evaluated.
\<close>

lemma rfc1321_abc: "md5Hex ''abc'' = ''900150983cd24fb0d6963f7d28e17f72''"
  by code_simp

text \<open>The worked example of RFC 2617, section 3.5.\<close>

lemma rfc2617_example:
  "fst (ComputeResponse [CHR 0x0a, CHR 0x4f, CHR 0x11, CHR 0x3b]
     (NewDigest\<lparr>dg_Username := ''Mufasa'', dg_Realm := ''testrealm@host.com'', dg_Password := ''Circle Of Life'',
       dg_Nonce := ''dcd98b7102dd2f0e8b11d0f600bfb0c093'', dg_Qop := ''auth''\<rparr>) ''GET'' ''/dir/index.html'') =
   (''6629fae49393a05397450978507c4ef1'', ''00000001'', ''0a4f113b'')"
  by code_simp

end
